theory Spec2Isabelle
  imports Complex_Main "HOL-Library.Word" "HOL-Library.Log_Nat"
begin

unbundle bit_operations_syntax

section \<open>JavaScript numbers and values\<close>

text \<open>
  A JavaScript number is an IEEE-754 binary64 value. The finite ones are carried by the
  rational they denote (the two zeros are one value here: they compare equal and both are
  falsy); arithmetic rounds the exact result to the nearest double, ties to the even
  mantissa.
\<close>

datatype jsnum = NaN | PInf | NInf | Fin rat

text \<open>Rounding a rational to the nearest integer, ties to the even one.\<close>

definition rne :: "rat \<Rightarrow> int" where
  "rne x =
     (let f = \<lfloor>x\<rfloor>; r = x - of_int f
      in if r < 1 / 2 then f else if 1 / 2 < r then f + 1 else if even f then f else f + 1)"

text \<open>
  The doubles of magnitude \<open>x\<close> are the multiples of \<open>2 ^ k / 2 ^ 1074\<close> with a mantissa
  below \<open>2 ^ 53\<close>: \<open>1 / 2 ^ 1074\<close> is the least subnormal, and \<open>k\<close> is 0 up to the end
  of the first normal binade and grows by one with each binade after it. With
  \<open>s = x * 2 ^ 1074\<close>, the binade is read off the bit length of \<open>\<lfloor>s\<rfloor>\<close>, and \<open>s\<close> is
  rounded to a multiple of \<open>2 ^ k\<close>.
\<close>

definition binade :: "rat \<Rightarrow> nat" where
  "binade s = nat (bitlen \<lfloor>s\<rfloor> - 53)"

definition round_scaled :: "rat \<Rightarrow> rat" where
  "round_scaled s = of_int (rne (s / 2 ^ binade s)) * 2 ^ binade s"

definition nearest_pos :: "rat \<Rightarrow> rat" where
  "nearest_pos x = round_scaled (x * 2 ^ 1074) / 2 ^ 1074"

definition nearest_double :: "rat \<Rightarrow> rat" where
  "nearest_double x = (if x < 0 then - nearest_pos (- x) else nearest_pos x)"

text \<open>A rounded result of magnitude \<open>2 ^ 1024\<close> or more is an infinity.\<close>

definition round_double :: "rat \<Rightarrow> jsnum" where
  "round_double x =
     (let y = nearest_double x
      in if 2 ^ 1024 \<le> y then PInf else if y \<le> - (2 ^ 1024) then NInf else Fin y)"

text \<open>
  The operator \<open>/\<close> with a divisor that is a finite double other than zero, which is what
  both divisions of the rollout computation have (the constants \<open>LONG_SCALE\<close> and 100).
\<close>

definition js_div :: "jsnum \<Rightarrow> rat \<Rightarrow> jsnum" where
  "js_div x d =
     (case x of
        NaN \<Rightarrow> NaN
      | PInf \<Rightarrow> if 0 < d then PInf else NInf
      | NInf \<Rightarrow> if 0 < d then NInf else PInf
      | Fin a \<Rightarrow> round_double (a / d))"

text \<open>The operators \<open><=\<close> and \<open><\<close> on numbers: every comparison with NaN is false.\<close>

fun js_le :: "jsnum \<Rightarrow> jsnum \<Rightarrow> bool" where
  "js_le NaN y = False"
| "js_le x NaN = False"
| "js_le NInf y = True"
| "js_le x PInf = True"
| "js_le PInf y = False"
| "js_le x NInf = False"
| "js_le (Fin a) (Fin b) = (a \<le> b)"

fun js_lt :: "jsnum \<Rightarrow> jsnum \<Rightarrow> bool" where
  "js_lt NaN y = False"
| "js_lt x NaN = False"
| "js_lt PInf y = False"
| "js_lt x NInf = False"
| "js_lt NInf y = True"
| "js_lt x PInf = True"
| "js_lt (Fin a) (Fin b) = (a < b)"

text \<open>
  The values a flag's \<open>rollout_percentage\<close> takes: a JSON number or null, \<open>undefined\<close>
  when the property is absent, and a boolean. Strings are left out: the flag listing
  carries a number or null in this field.
\<close>

datatype jsval = Undefined | Null | Boolean bool | Number jsnum

fun truthy :: "jsval \<Rightarrow> bool" where
  "truthy Undefined = False"
| "truthy Null = False"
| "truthy (Boolean b) = b"
| "truthy (Number NaN) = False"
| "truthy (Number (Fin a)) = (a \<noteq> 0)"
| "truthy (Number x) = True"

fun ToNumber :: "jsval \<Rightarrow> jsnum" where
  "ToNumber Undefined = NaN"
| "ToNumber Null = Fin 0"
| "ToNumber (Boolean b) = (if b then Fin 1 else Fin 0)"
| "ToNumber (Number x) = x"

section \<open>SHA-1, as \<open>crypto.createHash('sha1')\<close> computes it\<close>

type_synonym u32 = "32 word"
type_synonym byte = "8 word"

definition rotl32 :: "nat \<Rightarrow> u32 \<Rightarrow> u32" where
  "rotl32 n x = push_bit n x OR drop_bit (32 - n) x"

definition sha1_f :: "nat \<Rightarrow> u32 \<Rightarrow> u32 \<Rightarrow> u32 \<Rightarrow> u32" where
  "sha1_f t b c d =
     (if t < 20 then (b AND c) OR (NOT b AND d)
      else if t < 40 then b XOR c XOR d
      else if t < 60 then (b AND c) OR (b AND d) OR (c AND d)
      else b XOR c XOR d)"

definition sha1_k :: "nat \<Rightarrow> u32" where
  "sha1_k t =
     (if t < 20 then 0x5A827999
      else if t < 40 then 0x6ED9EBA1
      else if t < 60 then 0x8F1BBCDC
      else 0xCA62C1D6)"

text \<open>The \<open>k\<close> low bytes of \<open>v\<close>, most significant first.\<close>

fun be_bytes :: "nat \<Rightarrow> nat \<Rightarrow> byte list" where
  "be_bytes 0 v = []"
| "be_bytes (Suc k) v = be_bytes k (v div 256) @ [of_nat (v mod 256)]"

text \<open>Padding: a one bit, zeros up to 56 modulo 64 bytes, the bit length in 8 bytes.\<close>

definition sha1_pad :: "byte list \<Rightarrow> byte list" where
  "sha1_pad m =
     m @ [0x80] @ replicate ((119 - length m mod 64) mod 64) 0 @ be_bytes 8 (8 * length m)"

definition be32 :: "byte \<Rightarrow> byte \<Rightarrow> byte \<Rightarrow> byte \<Rightarrow> u32" where
  "be32 a b c d =
     push_bit 24 (ucast a) OR push_bit 16 (ucast b) OR push_bit 8 (ucast c) OR ucast d"

fun words_of :: "byte list \<Rightarrow> u32 list" where
  "words_of (a # b # c # d # bs) = be32 a b c d # words_of bs"
| "words_of bs = []"

text \<open>
  The message schedule: \<open>ws\<close> is the window of the last 16 words, and word \<open>t\<close> is
  the rotated xor of the words 3, 8, 14 and 16 places before it.
\<close>

fun schedule :: "nat \<Rightarrow> u32 list \<Rightarrow> u32 list" where
  "schedule 0 ws = []"
| "schedule (Suc k) ws =
     hd ws # schedule k (tl ws @ [rotl32 1 (ws ! 13 XOR ws ! 8 XOR ws ! 2 XOR ws ! 0)])"

type_synonym sha1_state = "u32 \<times> u32 \<times> u32 \<times> u32 \<times> u32"

fun sha1_round :: "sha1_state \<Rightarrow> nat \<times> u32 \<Rightarrow> sha1_state" where
  "sha1_round (a, b, c, d, e) (t, w) =
     (rotl32 5 a + sha1_f t b c d + e + sha1_k t + w, a, rotl32 30 b, c, d)"

fun sha1_add :: "sha1_state \<Rightarrow> sha1_state \<Rightarrow> sha1_state" where
  "sha1_add (a, b, c, d, e) (a', b', c', d', e') = (a + a', b + b', c + c', d + d', e + e')"

definition sha1_block :: "sha1_state \<Rightarrow> byte list \<Rightarrow> sha1_state" where
  "sha1_block h blk =
     sha1_add h (foldl sha1_round h (enumerate 0 (schedule 80 (words_of blk))))"

fun sha1_blocks :: "nat \<Rightarrow> sha1_state \<Rightarrow> byte list \<Rightarrow> sha1_state" where
  "sha1_blocks 0 h bs = h"
| "sha1_blocks (Suc k) h bs = sha1_blocks k (sha1_block h (take 64 bs)) (drop 64 bs)"

definition sha1_init :: sha1_state where
  "sha1_init = (0x67452301, 0xEFCDAB89, 0x98BADCFE, 0x10325476, 0xC3D2E1F0)"

definition sha1 :: "byte list \<Rightarrow> sha1_state" where
  "sha1 m = (let p = sha1_pad m in sha1_blocks (length p div 64) sha1_init p)"

text \<open>\<open>digest('hex')\<close>: the 20 bytes of the state, two lower-case hex digits each.\<close>

definition word_bytes :: "u32 \<Rightarrow> byte list" where
  "word_bytes w = [ucast (drop_bit 24 w), ucast (drop_bit 16 w), ucast (drop_bit 8 w), ucast w]"

definition hex_digit :: "nat \<Rightarrow> char" where
  "hex_digit n = ''0123456789abcdef'' ! n"

definition hex_of_byte :: "byte \<Rightarrow> string" where
  "hex_of_byte b = [hex_digit (unat b div 16), hex_digit (unat b mod 16)]"

fun digest_hex :: "sha1_state \<Rightarrow> string" where
  "digest_hex (a, b, c, d, e) =
     concat (map hex_of_byte (concat (map word_bytes [a, b, c, d, e])))"

text \<open>
  A string is the list of its UTF-8 bytes, which is what \<open>update\<close> hashes.
\<close>

definition sha1_hex :: "string \<Rightarrow> string" where
  "sha1_hex s = digest_hex (sha1 (map of_char s))"

section \<open>feature-flags.js: the simple-flag rollout\<close>

text \<open>
  \<open>parseInt(s, 16)\<close> on a run of hex digits: the leading hex digits are read in base 16 and
  the integer becomes a number (the nearest double); with no leading hex digit the result
  is NaN. A digest has neither white space, sign nor an \<open>0x\<close> prefix for \<open>parseInt\<close> to
  skip.
\<close>

definition hex_value :: "char \<Rightarrow> nat option" where
  "hex_value c =
     (if c \<in> set ''0123456789'' then Some (of_char c - 48)
      else if c \<in> set ''abcdef'' then Some (of_char c - 87)
      else if c \<in> set ''ABCDEF'' then Some (of_char c - 55)
      else None)"

text \<open>The characters \<open>parseInt\<close> reads as a digit in base 16.\<close>

definition hex_char :: "char \<Rightarrow> bool" where
  "hex_char c = (case hex_value c of None \<Rightarrow> False | Some v \<Rightarrow> v < 16)"

definition hex_number :: "string \<Rightarrow> nat" where
  "hex_number ds = foldl (\<lambda>acc c. 16 * acc + the (hex_value c)) 0 ds"

definition parseInt16 :: "string \<Rightarrow> jsnum" where
  "parseInt16 s =
     (let ds = takeWhile (\<lambda>c. hex_value c \<noteq> None) s
      in if ds = [] then NaN else round_double (of_nat (hex_number ds)))"

text \<open>The literal \<open>0xfffffffffffffff\<close> denotes the double nearest to it.\<close>

definition LONG_SCALE :: rat where
  "LONG_SCALE = nearest_double 0xfffffffffffffff"

definition hash_quotient :: "string \<Rightarrow> string \<Rightarrow> jsnum" where
  "hash_quotient key distinctId =
     (let integerRepresentationOfHashSubset =
            parseInt16 (take 15 (sha1_hex (key @ ''.'' @ distinctId)))
      in js_div integerRepresentationOfHashSubset LONG_SCALE)"

definition private_isSimpleFlagEnabled :: "string \<Rightarrow> string \<Rightarrow> jsval \<Rightarrow> bool" where
  "private_isSimpleFlagEnabled key distinctId rolloutPercentage =
     (if \<not> truthy rolloutPercentage then True
      else js_le (hash_quotient key distinctId) (js_div (ToNumber rolloutPercentage) 100))"

section \<open>Responses and errors\<close>

text \<open>
  A flag definition of the listing, the JSON bodies the poller reads, and the part of a
  fetch \<open>Response\<close> the code looks at. \<open>retry_after\<close> is what
  \<open>res.headers.get('retry-after')\<close> returns (\<open>None\<close> is null), \<open>body\<close> what
  \<open>res.json()\<close> parses (\<open>None\<close> when the body is not JSON, where it throws), and a
  property that is \<open>None\<close> is undefined. The \<open>retry-after\<close> header is \<open>None\<close> when the
  response has none (\<open>headers.get\<close> gives null), and otherwise its value, a JavaScript
  string given by its UTF-16 code units.
\<close>

record featureFlag =
  flag_key :: string
  is_simple_flag :: bool
  rollout_percentage :: jsval
  active :: bool

record json =
  json_results :: "featureFlag list option"
  json_featureFlags :: "string list option"

record response =
  status :: nat
  statusText :: string
  retry_after :: "nat list option"
  body :: "json option"

text \<open>\<open>res.ok\<close> is true for the statuses 200 to 299.\<close>

definition ok :: "response \<Rightarrow> bool" where
  "ok res = (200 \<le> status res \<and> status res \<le> 299)"

text \<open>
  The exceptions, by class. \<open>FetchFailure\<close> is an error the underlying fetch rejects with,
  given by its \<open>type\<close>, \<open>code\<close> and \<open>message\<close> properties (empty when absent); a
  \<open>ResponseError\<close> carries the response and has its \<open>statusText\<close> as message and its
  status, a number, as code.
\<close>

datatype error =
    Error string
  | TypeError string
  | SyntaxError string
  | ClientError string
  | ResponseError response
  | FetchFailure string string string

fun message :: "error \<Rightarrow> string" where
  "message (Error m) = m"
| "message (TypeError m) = m"
| "message (SyntaxError m) = m"
| "message (ClientError m) = m"
| "message (ResponseError res) = statusText res"
| "message (FetchFailure t c m) = m"

fun error_type :: "error \<Rightarrow> string option" where
  "error_type (FetchFailure t c m) = Some t"
| "error_type err = None"

fun error_code :: "error \<Rightarrow> string option" where
  "error_code (FetchFailure t c m) = Some c"
| "error_code err = None"

section \<open>fetchTimeout.js\<close>

text \<open>
  One call of \<open>fetchTimeout\<close>, as the event loop sees it: the promise it returned, whether
  the timer it set is still pending (set, and neither fired nor cleared), and its local
  variable \<open>timeoutId\<close> (\<open>None\<close> is undefined; a timer handle is truthy). \<open>options.timeout\<close>
  is a number of milliseconds, \<open>None\<close> when it is absent.
\<close>

datatype 'a settled = Pending | Fulfilled 'a | Rejected error

datatype handle = Timeout

record timeout_call =
  promise :: "response settled"
  timer_pending :: bool
  timeoutId :: "handle option"

definition settle :: "response settled \<Rightarrow> timeout_call \<Rightarrow> timeout_call" where
  "settle v c = (if promise c = Pending then c\<lparr>promise := v\<rparr> else c)"

text \<open>
  The executor: \<open>timeoutId\<close> starts undefined, and the handle \<open>setTimeout\<close> returns is
  not stored in it.
\<close>

definition fetchTimeout :: "int option \<Rightarrow> timeout_call" where
  "fetchTimeout timeout =
     (let requestTimeout = (case timeout of None \<Rightarrow> 0 | Some t \<Rightarrow> if t = 0 then 0 else t);
          shouldTimeout = (0 < requestTimeout);
          timeoutId = None
      in \<lparr>promise = Pending, timer_pending = shouldTimeout, timeoutId = timeoutId\<rparr>)"

text \<open>The \<open>then\<close> and \<open>catch\<close> handlers of the underlying call, and the timer's callback.\<close>

definition clear_if_set :: "timeout_call \<Rightarrow> timeout_call" where
  "clear_if_set c =
     (case timeoutId c of None \<Rightarrow> c | Some h \<Rightarrow> c\<lparr>timer_pending := False\<rparr>)"

definition on_response :: "response \<Rightarrow> timeout_call \<Rightarrow> timeout_call" where
  "on_response res c = settle (Fulfilled res) (clear_if_set c)"

definition on_error :: "error \<Rightarrow> timeout_call \<Rightarrow> timeout_call" where
  "on_error err c = settle (Rejected err) (clear_if_set c)"

definition on_timer :: "timeout_call \<Rightarrow> timeout_call" where
  "on_timer c =
     (if timer_pending c
      then settle (Rejected (TypeError ''Network request timeout'')) (c\<lparr>timer_pending := False\<rparr>)
      else c)"

text \<open>The race: the events in the order the event loop delivers them.\<close>

datatype timeout_event = Responds response | Fails error | TimerFires

fun timeout_step :: "timeout_call \<Rightarrow> timeout_event \<Rightarrow> timeout_call" where
  "timeout_step c (Responds res) = on_response res c"
| "timeout_step c (Fails err) = on_error err c"
| "timeout_step c TimerFires = on_timer c"

definition timeout_run :: "int option \<Rightarrow> timeout_event list \<Rightarrow> timeout_call" where
  "timeout_run timeout evs = foldl timeout_step (fetchTimeout timeout) evs"

section \<open>fetchRetry.js\<close>

text \<open>
  The value of the header is a JavaScript string, given by its UTF-16 code units.
  \<open>parseInt(s, 10)\<close> skips leading white space (the white space and line terminator code
  points of the language, which are all single code units), reads an optional sign and
  then decimal digits, and stops at the first other code unit. The result is a number:
  NaN when no digit follows, otherwise the double nearest to the integer read (which is
  what V8 computes, however many digits there are), negated after a minus sign. A
  missing header is the string \<open>null\<close> to \<open>parseInt\<close>, which has no digit.
\<close>

definition utf16 :: "string \<Rightarrow> nat list" where
  "utf16 s = map of_char s"

definition is_space :: "nat \<Rightarrow> bool" where
  "is_space c =
     (c \<in> set [0x09, 0x0A, 0x0B, 0x0C, 0x0D, 0x20, 0xA0, 0x1680, 0x2028, 0x2029, 0x202F,
               0x205F, 0x3000, 0xFEFF]
      \<or> (0x2000 \<le> c \<and> c \<le> 0x200A))"

definition is_digit :: "nat \<Rightarrow> bool" where
  "is_digit c = (0x30 \<le> c \<and> c \<le> 0x39)"

definition decimal :: "nat list \<Rightarrow> nat" where
  "decimal ds = foldl (\<lambda>acc c. 10 * acc + (c - 0x30)) 0 ds"

fun js_neg :: "jsnum \<Rightarrow> jsnum" where
  "js_neg NaN = NaN"
| "js_neg PInf = NInf"
| "js_neg NInf = PInf"
| "js_neg (Fin a) = Fin (- a)"

definition parseInt10 :: "nat list \<Rightarrow> jsnum" where
  "parseInt10 s =
     (let s1 = dropWhile is_space s;
          (negative, s2) = (case s1 of
                              [] \<Rightarrow> (False, s1)
                            | c # cs \<Rightarrow> if c = 0x2D then (True, cs)
                                        else if c = 0x2B then (False, cs) else (False, s1));
          ds = takeWhile is_digit s2
      in if ds = [] then NaN
         else if negative then js_neg (round_double (of_nat (decimal ds)))
         else round_double (of_nat (decimal ds)))"

definition header_seconds :: "nat list option \<Rightarrow> jsnum" where
  "header_seconds h = parseInt10 (case h of None \<Rightarrow> utf16 ''null'' | Some v \<Rightarrow> v)"

text \<open>
  The operator \<open>*\<close> with a factor that is a finite double above zero, which is what the
  product \<open>retryAfter * 1e3\<close> has.
\<close>

definition js_mul :: "jsnum \<Rightarrow> rat \<Rightarrow> jsnum" where
  "js_mul x f =
     (case x of
        NaN \<Rightarrow> NaN
      | PInf \<Rightarrow> PInf
      | NInf \<Rightarrow> NInf
      | Fin a \<Rightarrow> round_double (a * f))"

text \<open>
  The time a timer of Node.js waits, in milliseconds, for the delay \<open>setTimeout\<close> is
  given: a delay below 1 or above \<open>2 ^ 31 - 1\<close>, and one that is not a number, is set
  to 1; a fraction is cut off. The timer of an attempt is unreferenced and does not keep
  the process alive by itself; what follows is the call in a process that lives on.
\<close>

definition setTimeout_wait :: "jsnum \<Rightarrow> int" where
  "setTimeout_wait delay =
     (case delay of
        Fin d \<Rightarrow> if 1 \<le> d \<and> d \<le> 2147483647 then \<lfloor>d\<rfloor> else 1
      | NaN \<Rightarrow> 1
      | PInf \<Rightarrow> 1
      | NInf \<Rightarrow> 1)"

definition isClientError :: "error \<Rightarrow> bool" where
  "isClientError err =
     (error_code err = Some ''ERR_UNESCAPED_CHARACTERS''
      \<or> message err = ''Request path contains unescaped characters'')"

text \<open>
  What the event loop sees of one call: the calls of the underlying fetch, by attempt
  number, and the timers waited for, each with the time it waits in milliseconds.
\<close>

datatype event = Fetch nat | Sleep int

text \<open>
  One run of the function handed to \<open>retry\<close>: it returns a response, or bails out with an
  error, or throws an error for \<open>retry\<close> to deal with.
\<close>

datatype attempt_result = Returns response | Bails error | Throws error

definition on_attempt_error :: "error \<Rightarrow> attempt_result" where
  "on_attempt_error err =
     (if error_type err = Some ''aborted'' then Bails err
      else if isClientError err then Bails err
      else Throws err)"

definition retryable :: "response \<Rightarrow> bool" where
  "retryable res = ((500 \<le> status res \<and> status res < 600) \<or> status res = 429)"

text \<open>
  \<open>maxRetryAfter\<close> is the option as the comparison reads it, a number (NaN when the
  option is undefined); the default is 20.
\<close>

definition attempt :: "jsnum \<Rightarrow> error + response \<Rightarrow> event list \<times> attempt_result" where
  "attempt maxRetryAfter outcome =
     (case outcome of
        Inl err \<Rightarrow> ([], on_attempt_error err)
      | Inr res \<Rightarrow>
          if retryable res then
            (let retryAfter = header_seconds (retry_after res)
             in if truthy (Number retryAfter) then
                  if js_lt maxRetryAfter retryAfter then ([], Returns res)
                  else ([Sleep (setTimeout_wait (js_mul retryAfter 1000))],
                        on_attempt_error (ResponseError res))
                else ([], on_attempt_error (ResponseError res)))
          else ([], Returns res))"

text \<open>
  Attempt \<open>num\<close> of a call: \<open>fetch num\<close> is what the underlying fetch does on that attempt,
  a rejection or a response.
\<close>

definition run_attempt ::
  "jsnum \<Rightarrow> (nat \<Rightarrow> error + response) \<Rightarrow> nat \<Rightarrow> event list \<times> attempt_result" where
  "run_attempt maxRetryAfter fetch num =
     (let (evs, r) = attempt maxRetryAfter (fetch num) in (Fetch num # evs, r))"

text \<open>
  The package async-retry, which is not part of this repository, as its documentation and
  that of the package retry underneath it describe it, and as the code of the two reads.
  \<open>retry(fn, opts)\<close> runs \<open>fn\<close>; a returned value resolves the call, \<open>bail(err)\<close> rejects
  it with \<open>err\<close>, and a thrown error is recorded and \<open>fn\<close> runs again after the next
  delay of the backoff schedule; once the schedule is used up the call is rejected with
  \<open>mainError()\<close>. \<open>timeouts\<close> is the backoff schedule the package computed from
  \<open>minTimeout\<close>, \<open>factor\<close>, its random jitter and \<open>retries\<close>, one delay for each retry
  allowed; each is the delay of a timer. The options \<open>maxRetryTime\<close>, \<open>forever\<close> and
  \<open>onRetry\<close> are taken as not set.

  \<open>mainError()\<close> goes through the recorded errors, oldest first, with the number of times
  each message has occurred so far in \<open>counts\<close>, and keeps the error whose count is at
  least the count of the error kept before; it starts from null and 0. \<open>counts\<close> is a
  plain object, read with \<open>counts[message] || 0\<close>: for a message that names a property of
  \<open>Object.prototype\<close> the value read is that property, adding 1 to it gives a string, the
  comparison of the string with \<open>mainErrorCount\<close> is false, and what is stored under the
  message stays a string. Such an error is never kept and changes nothing for the others.
\<close>

definition object_prototype_keys :: "string list" where
  "object_prototype_keys =
     [''constructor'', ''hasOwnProperty'', ''isPrototypeOf'', ''propertyIsEnumerable'',
      ''toLocaleString'', ''toString'', ''valueOf'', ''__proto__'', ''__defineGetter__'',
      ''__defineSetter__'', ''__lookupGetter__'', ''__lookupSetter__'']"

definition mainError_step ::
  "(string \<Rightarrow> nat) \<times> error option \<times> nat \<Rightarrow> error \<Rightarrow> (string \<Rightarrow> nat) \<times> error option \<times> nat" where
  "mainError_step s err =
     (case s of (counts, mainError, mainErrorCount) \<Rightarrow>
        if message err \<in> set object_prototype_keys then s
        else
          (let count = counts (message err) + 1;
               counts' = counts(message err := count)
           in if mainErrorCount \<le> count then (counts', Some err, count)
              else (counts', mainError, mainErrorCount)))"

definition mainError :: "error list \<Rightarrow> error option" where
  "mainError errors = fst (snd (foldl mainError_step (\<lambda>m. 0, None, 0) errors))"

text \<open>A call is rejected with an error or, when \<open>mainError()\<close> is null, with null (\<open>None\<close>).\<close>

fun retry ::
  "(nat \<Rightarrow> event list \<times> attempt_result) \<Rightarrow> jsnum list \<Rightarrow> nat \<Rightarrow> error list
   \<Rightarrow> event list \<times> (error option + response)" where
  "retry fn [] num errors =
     (case fn num of
        (evs, Returns res) \<Rightarrow> (evs, Inr res)
      | (evs, Bails err) \<Rightarrow> (evs, Inl (Some err))
      | (evs, Throws err) \<Rightarrow> (evs, Inl (mainError (errors @ [err]))))"
| "retry fn (timeout # timeouts) num errors =
     (case fn num of
        (evs, Returns res) \<Rightarrow> (evs, Inr res)
      | (evs, Bails err) \<Rightarrow> (evs, Inl (Some err))
      | (evs, Throws err) \<Rightarrow>
          (let (evs', result) = retry fn timeouts (num + 1) (errors @ [err])
           in (evs @ [Sleep (setTimeout_wait timeout)] @ evs', result)))"

text \<open>
  \<open>fetchRetry\<close>: the outer \<open>catch\<close> turns a \<open>ResponseError\<close> back into its response and
  throws everything else on, null too.
\<close>

definition catch_response :: "error option + response \<Rightarrow> error option + response" where
  "catch_response result =
     (case result of
        Inl (Some (ResponseError res)) \<Rightarrow> Inr res
      | Inl err \<Rightarrow> Inl err
      | Inr res \<Rightarrow> Inr res)"

definition fetchRetry ::
  "jsnum \<Rightarrow> jsnum list \<Rightarrow> (nat \<Rightarrow> error + response)
   \<Rightarrow> event list \<times> (error option + response)" where
  "fetchRetry maxRetryAfter timeouts fetch =
     (let (evs, result) = retry (run_attempt maxRetryAfter fetch) timeouts 1 []
      in (evs, catch_response result))"

text \<open>The number of attempts a trace shows: attempts are numbered from 1.\<close>

fun is_Fetch :: "event \<Rightarrow> bool" where
  "is_Fetch (Fetch num) = True"
| "is_Fetch (Sleep ms) = False"

definition attempts_made :: "event list \<Rightarrow> nat" where
  "attempts_made evs = length (filter is_Fetch evs)"

definition MAX_RETRY_AFTER :: jsnum where
  "MAX_RETRY_AFTER = Fin 20"



text \<open>The number of times a message occurs among recorded errors.\<close>

definition message_count :: "string \<Rightarrow> error list \<Rightarrow> nat" where
  "message_count m errors = length (filter (\<lambda>err. message err = m) errors)"


section \<open>feature-flags.js: the poller\<close>

text \<open>
  The state of a \<open>FeatureFlagsPoller\<close>: its fields \<open>featureFlags\<close> and
  \<open>loadedSuccessfullyOnce\<close>, whether its \<open>poller\<close> timer is armed, and the calls its
  collaborator \<open>featureFlagCalledCallback\<close> has received, oldest first. The network is
  \<open>decoratedFetch\<close>: what a request of a path settles with, a rejection (with an error,
  or with null, which is \<open>None\<close>) or a response.
  One call of \<open>isFeatureEnabled\<close> requests each path at most once, so the request body
  (\<open>groups\<close>, \<open>distinct_id\<close>, the token) is left to the network.
\<close>

record poller_state =
  featureFlags :: "featureFlag list"
  loadedSuccessfullyOnce :: bool
  poller :: bool
  called :: "(string \<times> string \<times> bool) list"

type_synonym network = "string \<Rightarrow> error option + response"

text \<open>
  \<open>_request\<close>: what the \<open>try\<close> block throws is caught and thrown again as an \<open>Error\<close>
  with the message of what was caught; reading the message of null throws a \<open>TypeError\<close>
  instead.
\<close>

definition private_request :: "network \<Rightarrow> string \<Rightarrow> error + response" where
  "private_request decoratedFetch path =
     (case (case decoratedFetch path of
              Inl err \<Rightarrow> Inl err
            | Inr res \<Rightarrow>
                if \<not> ok res then Inl (Some (Error ''Failed to fetch request'')) else Inr res) of
        Inl None \<Rightarrow> Inl (TypeError ''Cannot read properties of null (reading 'message')'')
      | Inl (Some err) \<Rightarrow>
          Inl (Error (''Request to '' @ path @ '' failed with error: '' @ message err))
      | Inr res \<Rightarrow> Inr res)"

definition invalid_key_message :: string where
  "invalid_key_message =
     ''Your personalApiKey is invalid. Are you sure you're not using your Project API key? ''
     @ ''More information: https://posthog.com/docs/api/overview''"

text \<open>The \<open>try\<close> block of \<open>_loadFeatureFlags\<close>: the new state, or the error thrown.\<close>

definition load_try :: "network \<Rightarrow> poller_state \<Rightarrow> error + poller_state" where
  "load_try decoratedFetch st =
     (case private_request decoratedFetch ''api/feature_flag'' of
        Inl err \<Rightarrow> Inl err
      | Inr requestResponse \<Rightarrow>
          if status requestResponse = 401 then Inl (ClientError invalid_key_message)
          else
            (case body requestResponse of
               None \<Rightarrow> Inl (SyntaxError ''Unexpected token'')
             | Some json \<Rightarrow>
                 if ok requestResponse then
                   (case json_results json of
                      None \<Rightarrow> Inl (TypeError ''Cannot read properties of undefined'')
                    | Some results \<Rightarrow>
                        Inr (st\<lparr>featureFlags := filter active results,
                                 loadedSuccessfullyOnce := True\<rparr>))
                 else Inl (Error ''Failed to fetch feature flags'')))"

fun is_ClientError :: "error \<Rightarrow> bool" where
  "is_ClientError (ClientError m) = True"
| "is_ClientError err = False"

text \<open>
  \<open>_loadFeatureFlags\<close>: the timer is armed again first; the result is the error thrown to
  the caller, if any, and the state.
\<close>

definition private_loadFeatureFlags ::
  "network \<Rightarrow> poller_state \<Rightarrow> error option \<times> poller_state" where
  "private_loadFeatureFlags decoratedFetch st =
     (let st1 = st\<lparr>poller := True\<rparr>
      in case load_try decoratedFetch st1 of
           Inr st2 \<Rightarrow> (None, st2)
         | Inl err \<Rightarrow> if is_ClientError err then (Some err, st1) else (None, st1))"

definition loadFeatureFlags ::
  "bool \<Rightarrow> network \<Rightarrow> poller_state \<Rightarrow> error option \<times> poller_state" where
  "loadFeatureFlags forceReload decoratedFetch st =
     (if \<not> loadedSuccessfullyOnce st \<or> forceReload
      then private_loadFeatureFlags decoratedFetch st
      else (None, st))"

text \<open>The \<open>try\<close> block of the remote decide call.\<close>

definition decide_try :: "network \<Rightarrow> string \<Rightarrow> bool \<Rightarrow> error + bool" where
  "decide_try decoratedFetch key defaultResult =
     (case private_request decoratedFetch ''decide'' of
        Inl err \<Rightarrow> Inl err
      | Inr res \<Rightarrow>
          if ok res then
            (case body res of
               None \<Rightarrow> Inl (SyntaxError ''Unexpected token'')
             | Some json \<Rightarrow>
                 (case json_featureFlags json of
                    None \<Rightarrow> Inl (TypeError ''Cannot read properties of undefined'')
                  | Some keys \<Rightarrow> Inr (key \<in> set keys)))
          else Inr defaultResult)"

definition isFeatureEnabled ::
  "network \<Rightarrow> string \<Rightarrow> string \<Rightarrow> bool \<Rightarrow> poller_state \<Rightarrow> (error + bool) \<times> poller_state" where
  "isFeatureEnabled decoratedFetch key distinctId defaultResult st =
     (case loadFeatureFlags False decoratedFetch st of
        (Some err, st1) \<Rightarrow> (Inl err, st1)
      | (None, st1) \<Rightarrow>
          if \<not> loadedSuccessfullyOnce st1 then (Inr defaultResult, st1)
          else
            (case find (\<lambda>flag. key = flag_key flag) (featureFlags st1) of
               None \<Rightarrow> (Inr defaultResult, st1)
             | Some featureFlag \<Rightarrow>
                 (let isFlagEnabledResponse =
                        (if is_simple_flag featureFlag
                         then private_isSimpleFlagEnabled key distinctId
                                (rollout_percentage featureFlag)
                         else (case decide_try decoratedFetch key defaultResult of
                                 Inl err \<Rightarrow> defaultResult
                               | Inr enabled \<Rightarrow> enabled))
                  in (Inr isFlagEnabledResponse,
                      st1\<lparr>called := called st1 @ [(key, distinctId, isFlagEnabledResponse)]\<rparr>))))"

section \<open>The dispatch queue\<close>

text \<open>
  Modelled from the spec: \<open>enqueue\<close> and \<open>flush\<close> of the client (index.js), which is not
  among the sources; only its tests are. An item is a message with its callback. The
  configured threshold has a floor of 1. A flush hands the oldest \<open>flushAt\<close> items of the
  buffer to the transport, which leaves them in flight until the send completes; then
  every callback of the batch is invoked with the outcome, in the order of the batch.
  \<open>flushed\<close> is false while the first-item flush is still to come. The flush timer is
  left out: it cannot fire while items are enqueued synchronously.
\<close>

record 'm queue_state =
  queue :: "('m \<times> nat) list"
  flushAt :: nat
  flushed :: bool
  enable :: bool
  in_flight :: "('m \<times> nat) list list"
  callbacks_fired :: "(nat \<times> error option) list"

definition flush :: "'m queue_state \<Rightarrow> 'm queue_state" where
  "flush st =
     (if \<not> enable st then st
      else if queue st = [] then st
      else st\<lparr>queue := drop (max 1 (flushAt st)) (queue st),
               in_flight := in_flight st @ [take (max 1 (flushAt st)) (queue st)]\<rparr>)"

definition enqueue :: "'m \<times> nat \<Rightarrow> 'm queue_state \<Rightarrow> 'm queue_state" where
  "enqueue item st =
     (if \<not> enable st then st\<lparr>callbacks_fired := callbacks_fired st @ [(snd item, None)]\<rparr>
      else
        (let st1 = st\<lparr>queue := queue st @ [item]\<rparr>
         in if \<not> flushed st1 then flush (st1\<lparr>flushed := True\<rparr>)
            else if max 1 (flushAt st1) \<le> length (queue st1) then flush st1
            else st1))"

text \<open>The oldest send in flight completes, with an error or without.\<close>

definition send_done :: "error option \<Rightarrow> 'm queue_state \<Rightarrow> 'm queue_state" where
  "send_done err st =
     (case in_flight st of
        [] \<Rightarrow> st
      | batch # rest \<Rightarrow>
          st\<lparr>in_flight := rest,
             callbacks_fired := callbacks_fired st @ map (\<lambda>item. (snd item, err)) batch\<rparr>)"

text \<open>Enqueuing a run of items one after the other, with nothing in between.\<close>

definition enqueue_all :: "('m \<times> nat) list \<Rightarrow> 'm queue_state \<Rightarrow> 'm queue_state" where
  "enqueue_all items st = foldl (\<lambda>st item. enqueue item st) st items"

text \<open>An enabled client with an empty buffer and nothing in flight.\<close>

definition empty_queue :: "nat \<Rightarrow> bool \<Rightarrow> string queue_state" where
  "empty_queue n f =
     \<lparr>queue = [], flushAt = n, flushed = f, enable = True, in_flight = [],
      callbacks_fired = []\<rparr>"

section \<open>Concrete networks and states\<close>

text \<open>A poller as the constructor leaves it, before any load, and one that has loaded.\<close>

definition new_poller :: poller_state where
  "new_poller = \<lparr>featureFlags = [], loadedSuccessfullyOnce = False, poller = False, called = []\<rparr>"

definition simple_flag :: featureFlag where
  "simple_flag =
     \<lparr>flag_key = ''simpleFlag'', is_simple_flag = True, rollout_percentage = Null, active = True\<rparr>"

definition loaded_poller :: poller_state where
  "loaded_poller =
     \<lparr>featureFlags = [simple_flag], loadedSuccessfullyOnce = True, poller = True, called = []\<rparr>"

text \<open>A network that is down, and one that answers every request with 401.\<close>

definition network_down :: network where
  "network_down path = Inl (Some (FetchFailure ''system'' ''ECONNREFUSED'' ''fetch failed''))"

definition unauthorized :: response where
  "unauthorized = \<lparr>status = 401, statusText = ''Unauthorized'', retry_after = None, body = None\<rparr>"

definition network_401 :: network where
  "network_401 path = Inr unauthorized"

text \<open>
  The time waited between attempt \<open>num - 1\<close> and attempt \<open>num\<close>: the sum of the waits
  of the trace between the two fetches.
\<close>

fun sleep_ms :: "event \<Rightarrow> int" where
  "sleep_ms (Sleep ms) = ms"
| "sleep_ms (Fetch num) = 0"

definition delay_before :: "nat \<Rightarrow> event list \<Rightarrow> int" where
  "delay_before num evs =
     sum_list (map sleep_ms
       (takeWhile (\<lambda>ev. ev \<noteq> Fetch num) (tl (dropWhile (\<lambda>ev. ev \<noteq> Fetch (num - 1)) evs))))"

text \<open>Responses of a server that is busy, and of one that answers.\<close>

definition busy :: "nat \<Rightarrow> string \<Rightarrow> nat list option \<Rightarrow> response" where
  "busy code text after = \<lparr>status = code, statusText = text, retry_after = after, body = None\<rparr>"

definition fine :: response where
  "fine = \<lparr>status = 200, statusText = ''OK'', retry_after = None, body = None\<rparr>"

text \<open>
  A server that asks to wait 2 seconds, then answers; one that asks to wait 30 seconds;
  one that is unavailable twice and then fails otherwise; one that stays unavailable; and
  a network that is down.
\<close>

definition wait_then_fine :: "nat \<Rightarrow> error + response" where
  "wait_then_fine num =
     (if num = 1 then Inr (busy 503 ''Service Unavailable'' (Some (utf16 ''2''))) else Inr fine)"

definition wait_long :: "nat \<Rightarrow> error + response" where
  "wait_long num = Inr (busy 503 ''Service Unavailable'' (Some (utf16 ''30'')))"





definition wait_negative :: "nat \<Rightarrow> error + response" where
  "wait_negative num = Inr (busy 503 ''Service Unavailable'' (Some (utf16 ''-3'')))"

section \<open>fetchTimeout.js: the timer after the call settles\<close>

lemma fetchTimeout_timeoutId: "timeoutId (fetchTimeout timeout) = None"
  by (simp add: fetchTimeout_def)

lemma timeout_step_timeoutId: "timeoutId (timeout_step c ev) = timeoutId c"
  by (cases ev) (simp_all add: on_response_def on_error_def on_timer_def settle_def
      clear_if_set_def split: option.splits)

lemma timeout_run_timeoutId: "timeoutId (foldl timeout_step c evs) = timeoutId c"
  by (induction evs arbitrary: c) (simp_all add: timeout_step_timeoutId)

lemma timer_pending_kept:
  assumes "timeoutId c = None" and "TimerFires \<notin> set evs"
  shows "timer_pending (foldl timeout_step c evs) = timer_pending c"
  using assms
proof (induction evs arbitrary: c)
  case Nil
  then show ?case by simp
next
  case (Cons ev evs)
  have "timer_pending (timeout_step c ev) = timer_pending c"
    using Cons.prems
    by (cases ev) (simp_all add: on_response_def on_error_def settle_def clear_if_set_def)
  moreover have "timeoutId (timeout_step c ev) = None"
    using Cons.prems(1) by (simp add: timeout_step_timeoutId)
  ultimately show ?case
    using Cons.prems(2) Cons.IH [of "timeout_step c ev"] by simp
qed

lemma timer_never_cleared:
  assumes "TimerFires \<notin> set evs"
  shows "timer_pending (timeout_run timeout evs) = timer_pending (fetchTimeout timeout)"
  unfolding timeout_run_def
  using fetchTimeout_timeoutId assms by (rule timer_pending_kept)

text \<open>
  C6. With \<open>options.timeout = 500\<close>: when the timer fires first the promise is rejected
  with the timeout error, as the claim says. When the underlying call settles first, with
  a response or with an error, the promise settles with that outcome but the timer is
  still pending afterwards: \<open>timeoutId\<close> is never assigned, so \<open>clearTimeout\<close> is never
  reached. The timer then fires later and finds the promise settled. The same holds for
  every timeout and every outcome (\<open>timer_never_cleared\<close>).
\<close>

theorem fetchTimeout_timer_not_cleared:
  "promise (timeout_run (Some 500) [TimerFires])
     = Rejected (TypeError ''Network request timeout'')
   \<and> timeout_run (Some 500)
       [Responds \<lparr>status = 200, statusText = ''OK'', retry_after = None, body = None\<rparr>]
     = \<lparr>promise = Fulfilled \<lparr>status = 200, statusText = ''OK'', retry_after = None, body = None\<rparr>,
        timer_pending = True, timeoutId = None\<rparr>
   \<and> timeout_run (Some 500) [Fails (FetchFailure ''system'' ''ECONNRESET'' ''socket hang up'')]
     = \<lparr>promise = Rejected (FetchFailure ''system'' ''ECONNRESET'' ''socket hang up''),
        timer_pending = True, timeoutId = None\<rparr>
   \<and> promise (timeout_run (Some 500)
       [Responds \<lparr>status = 200, statusText = ''OK'', retry_after = None, body = None\<rparr>,
        TimerFires])
     = Fulfilled \<lparr>status = 200, statusText = ''OK'', retry_after = None, body = None\<rparr>"
  by (simp add: timeout_run_def fetchTimeout_def on_response_def on_error_def on_timer_def
      settle_def clear_if_set_def)

section \<open>feature-flags.js: the poller's loads and evaluations\<close>

lemma private_request_ok: "private_request net path = Inr res \<Longrightarrow> ok res"
  by (auto simp: private_request_def split: sum.splits option.splits if_splits)

lemma load_try_not_ClientError: "load_try net st = Inl err \<Longrightarrow> \<not> is_ClientError err"
proof -
  assume a: "load_try net st = Inl err"
  show ?thesis
  proof (cases "private_request net ''api/feature_flag''")
    case (Inl e)
    then have "err = e" using a by (simp add: load_try_def)
    moreover from Inl have "(\<exists>m. e = Error m) \<or> (\<exists>m. e = TypeError m)"
      by (auto simp: private_request_def split: sum.splits option.splits if_splits)
    ultimately show ?thesis by auto
  next
    case (Inr res)
    then have "ok res" by (rule private_request_ok)
    then have "status res \<noteq> 401" by (simp add: ok_def)
    then show ?thesis using a Inr
      by (auto simp: load_try_def split: option.splits if_splits)
  qed
qed

lemma private_loadFeatureFlags_no_error: "fst (private_loadFeatureFlags net st) = None"
  by (auto simp: private_loadFeatureFlags_def Let_def dest: load_try_not_ClientError
      split: sum.splits)

lemma loadFeatureFlags_no_error: "fst (loadFeatureFlags forceReload net st) = None"
  by (simp add: loadFeatureFlags_def private_loadFeatureFlags_no_error)

lemma private_loadFeatureFlags_called:
  "called (snd (private_loadFeatureFlags net st)) = called st"
  by (auto simp: private_loadFeatureFlags_def Let_def load_try_def
      split: sum.splits option.splits if_splits)

lemma loadFeatureFlags_called: "called (snd (loadFeatureFlags forceReload net st)) = called st"
  by (simp add: loadFeatureFlags_def private_loadFeatureFlags_called)

text \<open>
  C2. An explicit reload, \<open>loadFeatureFlags(true)\<close>, and a first load, against a listing
  endpoint that answers 401: \<open>_request\<close> throws a plain \<open>Error\<close> for every response that
  is not ok, so the check of the status 401 in \<open>_loadFeatureFlags\<close> is never reached, the
  error is swallowed as any other, and no \<open>ClientError\<close> reaches the caller. The flag
  table and \<open>loadedSuccessfullyOnce\<close> are as before.
\<close>

theorem loadFeatureFlags_401_swallowed:
  "loadFeatureFlags True network_401 loaded_poller = (None, loaded_poller)
   \<and> loadFeatureFlags False network_401 new_poller = (None, new_poller\<lparr>poller := True\<rparr>)
   \<and> private_request network_401 ''api/feature_flag''
       = Inl (Error ''Request to api/feature_flag failed with error: Failed to fetch request'')"
  by (simp add: loadFeatureFlags_def private_loadFeatureFlags_def load_try_def
      private_request_def network_401_def unauthorized_def ok_def loaded_poller_def
      new_poller_def)

text \<open>
  The reload is explicit (\<open>forceReload\<close> is true, on a poller that had loaded) and returns
  with no error and the state it started from.
\<close>

theorem loadFeatureFlags_401_swallowed_witness:
  "loadedSuccessfullyOnce loaded_poller
   \<and> fst (loadFeatureFlags True network_401 loaded_poller) = None
   \<and> snd (loadFeatureFlags True network_401 loaded_poller) = loaded_poller"
  using loadFeatureFlags_401_swallowed by (simp add: loaded_poller_def)

text \<open>
  C5, as stated, fails: with the table never loaded (the network is down), and with the
  table loaded but no flag of the key, \<open>isFeatureEnabled\<close> returns the default and
  \<open>featureFlagCalledCallback\<close> is not invoked.
\<close>

theorem isFeatureEnabled_callback_counterexample:
  "isFeatureEnabled network_down ''my-flag'' ''some id'' True new_poller
     = (Inr True, new_poller\<lparr>poller := True\<rparr>)
   \<and> called (new_poller\<lparr>poller := True\<rparr>) = []
   \<and> isFeatureEnabled network_down ''i-dont-exist'' ''some id'' True loaded_poller
     = (Inr True, loaded_poller)
   \<and> called loaded_poller = []"
  by (simp add: isFeatureEnabled_def loadFeatureFlags_def private_loadFeatureFlags_def
      load_try_def private_request_def network_down_def new_poller_def loaded_poller_def
      simple_flag_def)

text \<open>
  C5, amended. For a call of \<open>isFeatureEnabled\<close> that returns: when, after the call's
  load, the table has loaded and holds a flag of the key, the callback is invoked exactly
  once, with \<open>(key, distinctId, result)\<close>, where \<open>result\<close> is the boolean returned,
  whether it came from the simple-flag hash, the remote decide call or its fallback to
  the default. When the table never loaded or no flag has the key, the call returns
  \<open>defaultResult\<close> and the callback is not invoked.
\<close>

theorem isFeatureEnabled_callback:
  assumes "isFeatureEnabled net key distinctId defaultResult st = (Inr result, st')"
  shows "if loadedSuccessfullyOnce st'
            \<and> find (\<lambda>flag. key = flag_key flag) (featureFlags st') \<noteq> None
         then called st' = called st @ [(key, distinctId, result)]
         else called st' = called st \<and> result = defaultResult"
proof -
  obtain e st1 where l: "loadFeatureFlags False net st = (e, st1)"
    by (cases "loadFeatureFlags False net st")
  have e: "e = None"
  proof (cases e)
    case None
    then show ?thesis .
  next
    case (Some err)
    then have "isFeatureEnabled net key distinctId defaultResult st = (Inl err, st1)"
      using l by (simp add: isFeatureEnabled_def)
    then show ?thesis using assms by simp
  qed
  have c: "called st1 = called st"
    using loadFeatureFlags_called [of False net st] l by simp
  let ?found = "find (\<lambda>flag. key = flag_key flag) (featureFlags st1)"
  show ?thesis
  proof (cases "loadedSuccessfullyOnce st1")
    case False
    then have "result = defaultResult" and "st' = st1"
      using assms l e by (simp_all add: isFeatureEnabled_def)
    then show ?thesis using False c by simp
  next
    case True
    show ?thesis
    proof (cases ?found)
      case None
      then have "result = defaultResult" and "st' = st1"
        using assms l e True by (simp_all add: isFeatureEnabled_def)
      then show ?thesis using None c by simp
    next
      case (Some featureFlag)
      define r where "r =
        (if is_simple_flag featureFlag
         then private_isSimpleFlagEnabled key distinctId (rollout_percentage featureFlag)
         else (case decide_try net key defaultResult of
                 Inl err \<Rightarrow> defaultResult
               | Inr enabled \<Rightarrow> enabled))"
      have "isFeatureEnabled net key distinctId defaultResult st
            = (Inr r, st1\<lparr>called := called st1 @ [(key, distinctId, r)]\<rparr>)"
        using l e True Some
        by (simp add: isFeatureEnabled_def Let_def r_def)
      with assms have "result = r"
        and "st' = st1\<lparr>called := called st1 @ [(key, distinctId, r)]\<rparr>"
        by auto
      then show ?thesis using True Some c by simp
    qed
  qed
qed

text \<open>
  A call that returns from the simple-flag branch: the callback has received the one
  call, with the result returned.
\<close>

theorem isFeatureEnabled_callback_witness:
  "isFeatureEnabled network_down ''simpleFlag'' ''some id'' False loaded_poller
     = (Inr True, loaded_poller\<lparr>called := [(''simpleFlag'', ''some id'', True)]\<rparr>)
   \<and> called (loaded_poller\<lparr>called := [(''simpleFlag'', ''some id'', True)]\<rparr>)
     = called loaded_poller @ [(''simpleFlag'', ''some id'', True)]"
proof -
  have h: "isFeatureEnabled network_down ''simpleFlag'' ''some id'' False loaded_poller
     = (Inr True, loaded_poller\<lparr>called := [(''simpleFlag'', ''some id'', True)]\<rparr>)"
    by (simp add: isFeatureEnabled_def loadFeatureFlags_def loaded_poller_def simple_flag_def
        private_isSimpleFlagEnabled_def)
  show ?thesis
    using isFeatureEnabled_callback [OF h] h
    by (simp add: loaded_poller_def simple_flag_def)
qed

section \<open>feature-flags.js: the simple-flag rollout decision\<close>

text \<open>
  C9. Whatever the key and the subject, \<open>_isSimpleFlagEnabled\<close> returns true for a
  \<open>rolloutPercentage\<close> that is falsy: undefined (absent), null, zero, NaN or false.
\<close>

theorem isSimpleFlagEnabled_falsy:
  "(\<not> truthy rolloutPercentage
      \<longrightarrow> private_isSimpleFlagEnabled key distinctId rolloutPercentage)
   \<and> private_isSimpleFlagEnabled key distinctId Undefined
   \<and> private_isSimpleFlagEnabled key distinctId Null
   \<and> private_isSimpleFlagEnabled key distinctId (Number (Fin 0))
   \<and> private_isSimpleFlagEnabled key distinctId (Number NaN)
   \<and> private_isSimpleFlagEnabled key distinctId (Boolean False)"
  by (simp add: private_isSimpleFlagEnabled_def)

theorem isSimpleFlagEnabled_falsy_witness:
  "\<not> truthy (Number (Fin 0)) \<and> private_isSimpleFlagEnabled ''a'' ''b'' (Number (Fin 0))"
  using isSimpleFlagEnabled_falsy [of "Number (Fin 0)" "''a''" "''b''"] by simp

section \<open>The dispatch queue: one flush for \<open>flushAt\<close> items\<close>

lemma enqueue_below:
  assumes "enable st" and "flushed st" and "length (queue st) + 1 < max 1 (flushAt st)"
  shows "enqueue item st = st\<lparr>queue := queue st @ [item]\<rparr>"
  using assms by (simp add: enqueue_def Let_def)

lemma enqueue_reaching:
  assumes "enable st" and "flushed st" and "length (queue st) + 1 = max 1 (flushAt st)"
  shows "enqueue item st
         = st\<lparr>queue := [], in_flight := in_flight st @ [queue st @ [item]]\<rparr>"
  using assms by (simp add: enqueue_def Let_def flush_def)

lemma enqueue_all_below:
  assumes "enable st" and "flushed st"
    and "length (queue st) + length items < max 1 (flushAt st)"
  shows "enqueue_all items st = st\<lparr>queue := queue st @ items\<rparr>"
  using assms
proof (induction items arbitrary: st)
  case Nil
  then show ?case by (simp add: enqueue_all_def)
next
  case (Cons item items)
  let ?st1 = "st\<lparr>queue := queue st @ [item]\<rparr>"
  have one: "enqueue item st = ?st1"
    using Cons.prems by (intro enqueue_below) simp_all
  have "enqueue_all (item # items) st = enqueue_all items ?st1"
    by (simp add: enqueue_all_def one)
  also have "\<dots> = ?st1\<lparr>queue := queue ?st1 @ items\<rparr>"
    using Cons.prems by (intro Cons.IH) simp_all
  finally show ?case by simp
qed

lemma enqueue_all_snoc:
  "enqueue_all (items @ [item]) st = enqueue item (enqueue_all items st)"
  by (simp add: enqueue_all_def)

lemma enqueue_all_reaching:
  assumes "enable st" and "flushed st" and "queue st = []"
    and "length items = max 1 (flushAt st)"
  shows "enqueue_all items st = st\<lparr>in_flight := in_flight st @ [items]\<rparr>"
proof -
  from assms(4) have "items \<noteq> []" by auto
  then obtain front item where items: "items = front @ [item]"
    by (metis rev_exhaust)
  let ?st1 = "st\<lparr>queue := front\<rparr>"
  have "enqueue_all front st = st\<lparr>queue := queue st @ front\<rparr>"
    using assms items by (intro enqueue_all_below) simp_all
  then have front: "enqueue_all front st = ?st1"
    using assms(3) by simp
  have "enqueue item ?st1
        = ?st1\<lparr>queue := [], in_flight := in_flight ?st1 @ [queue ?st1 @ [item]]\<rparr>"
    using assms items by (intro enqueue_reaching) simp_all
  then show ?thesis
    using assms(3) by (simp add: items enqueue_all_snoc front)
qed

text \<open>
  C8, as stated, fails on a client whose first-item flush is still to come (\<open>flushed\<close> is
  false, the state the test "flush on first message" sets): with \<open>flushAt = 2\<close>, enqueuing
  two items triggers one flush, on the first item, whose batch holds that item only; the
  second stays in the buffer.
\<close>

theorem enqueue_flushAt_counterexample:
  "enqueue_all [(''a'', 1), (''b'', 2)] (empty_queue 2 False)
   = \<lparr>queue = [(''b'', 2)], flushAt = 2, flushed = True, enable = True,
      in_flight = [[(''a'', 1)]], callbacks_fired = []\<rparr>"
  by (simp add: enqueue_all_def enqueue_def flush_def empty_queue_def Let_def)

text \<open>
  C8, amended. On an enabled client whose first-item flush is behind it (\<open>flushed\<close> is
  true), with an empty buffer and nothing in flight: enqueuing \<open>flushAt\<close> items (at least
  one) one after the other triggers exactly one flush, whose batch is these items in
  insertion order, and empties the buffer; items enqueued after them, fewer than
  \<open>flushAt\<close>, are not in the batch and stay in the buffer; and when the send completes,
  the callbacks of the batch fire in enqueue order, each with the outcome.
\<close>

theorem enqueue_flushAt_one_flush:
  assumes "enable st" and "flushed st" and "queue st = []" and "in_flight st = []"
    and "length items = max 1 (flushAt st)" and "length later < max 1 (flushAt st)"
  shows "in_flight (enqueue_all items st) = [items]
       \<and> queue (enqueue_all items st) = []
       \<and> in_flight (enqueue_all later (enqueue_all items st)) = [items]
       \<and> queue (enqueue_all later (enqueue_all items st)) = later
       \<and> callbacks_fired (send_done err (enqueue_all later (enqueue_all items st)))
         = callbacks_fired st @ map (\<lambda>item. (snd item, err)) items"
proof -
  let ?st1 = "st\<lparr>in_flight := in_flight st @ [items]\<rparr>"
  have one: "enqueue_all items st = ?st1"
    using assms by (intro enqueue_all_reaching) simp_all
  have "enqueue_all later ?st1 = ?st1\<lparr>queue := queue ?st1 @ later\<rparr>"
    using assms by (intro enqueue_all_below) simp_all
  then have two: "enqueue_all later (enqueue_all items st)
                  = st\<lparr>in_flight := [items], queue := later\<rparr>"
    using assms(3,4) by (simp add: one)
  have first: "in_flight (enqueue_all items st) = [items] \<and> queue (enqueue_all items st) = []"
    using assms(3,4) by (simp add: one)
  have rest: "in_flight (enqueue_all later (enqueue_all items st)) = [items]
       \<and> queue (enqueue_all later (enqueue_all items st)) = later
       \<and> callbacks_fired (send_done err (enqueue_all later (enqueue_all items st)))
         = callbacks_fired st @ map (\<lambda>item. (snd item, err)) items"
    unfolding two by (simp add: send_done_def)
  from first rest show ?thesis by simp
qed

theorem enqueue_flushAt_one_flush_witness:
  "in_flight (enqueue_all [(''a'', 1), (''b'', 2)] (empty_queue 2 True))
     = [[(''a'', 1), (''b'', 2)]]
   \<and> queue (enqueue_all [(''c'', 3)] (enqueue_all [(''a'', 1), (''b'', 2)] (empty_queue 2 True)))
     = [(''c'', 3)]
   \<and> callbacks_fired (send_done None
        (enqueue_all [(''c'', 3)] (enqueue_all [(''a'', 1), (''b'', 2)] (empty_queue 2 True))))
     = [(1, None), (2, None)]"
  using enqueue_flushAt_one_flush [of "empty_queue 2 True" "[(''a'', 1), (''b'', 2)]"
      "[(''c'', 3)]" None]
  by (simp add: empty_queue_def)

section \<open>Rounding to the nearest double\<close>

lemma rne_of_int: "rne (of_int n) = n"
  by (simp add: rne_def)

lemma rne_floor: "\<lfloor>x\<rfloor> \<le> rne x \<and> rne x \<le> \<lfloor>x\<rfloor> + 1"
  by (simp add: rne_def Let_def)

lemma rne_mono:
  assumes "x \<le> y"
  shows "rne x \<le> rne y"
proof (cases "\<lfloor>x\<rfloor> < \<lfloor>y\<rfloor>")
  case True
  have "rne x \<le> \<lfloor>x\<rfloor> + 1" using rne_floor [of x] by simp
  also have "\<dots> \<le> \<lfloor>y\<rfloor>" using True by simp
  also have "\<dots> \<le> rne y" using rne_floor [of y] by simp
  finally show ?thesis .
next
  case False
  moreover have "\<lfloor>x\<rfloor> \<le> \<lfloor>y\<rfloor>" using assms by (rule floor_mono)
  ultimately have eq: "\<lfloor>x\<rfloor> = \<lfloor>y\<rfloor>" by simp
  then have "x - of_int \<lfloor>x\<rfloor> \<le> y - of_int \<lfloor>y\<rfloor>" using assms by simp
  then show ?thesis unfolding rne_def Let_def eq by auto
qed

lemma binade_mono:
  assumes "s \<le> t"
  shows "binade s \<le> binade t"
proof -
  have "\<lfloor>s\<rfloor> \<le> \<lfloor>t\<rfloor>" using assms by (rule floor_mono)
  then have "bitlen \<lfloor>s\<rfloor> \<le> bitlen \<lfloor>t\<rfloor>"
    by (simp add: bitlen_def floorlog_mono)
  then show ?thesis by (simp add: binade_def)
qed

lemma below_binade:
  assumes "0 \<le> s"
  shows "s < 2 ^ (binade s + 53)"
proof -
  have "bitlen \<lfloor>s\<rfloor> \<le> int (binade s + 53)"
    by (simp add: binade_def)
  moreover have "nat (int (binade s + 53)) = binade s + 53" by simp
  ultimately have "\<lfloor>s\<rfloor> < 2 ^ (binade s + 53)"
    unfolding bitlen_le_iff_power by metis
  then have "\<lfloor>s\<rfloor> + 1 \<le> 2 ^ (binade s + 53)" by simp
  then have "(of_int (\<lfloor>s\<rfloor> + 1) :: rat) \<le> of_int (2 ^ (binade s + 53))"
    by (simp only: of_int_le_iff)
  moreover have "s < of_int (\<lfloor>s\<rfloor> + 1)" by linarith
  ultimately show ?thesis by simp
qed

lemma above_binade:
  assumes "0 < binade s"
  shows "2 ^ (binade s + 52) \<le> s"
proof -
  have "int (binade s + 53) \<le> bitlen \<lfloor>s\<rfloor>"
    using assms by (simp add: binade_def)
  moreover have "nat (int (binade s + 53)) - 1 = binade s + 52"
    and "\<not> int (binade s + 53) \<le> 0" by simp_all
  ultimately have "2 ^ (binade s + 52) \<le> \<lfloor>s\<rfloor>"
    unfolding bitlen_ge_iff_power by metis
  then have "(of_int (2 ^ (binade s + 52)) :: rat) \<le> s"
    by (simp only: le_floor_iff)
  then show ?thesis by simp
qed

lemma round_scaled_upper:
  assumes "0 \<le> s"
  shows "round_scaled s \<le> 2 ^ (binade s + 53)"
proof -
  let ?k = "binade s"
  have "s < 2 ^ ?k * 2 ^ 53"
    using below_binade [OF assms] by (simp add: power_add)
  then have "s / 2 ^ ?k \<le> of_int (2 ^ 53)"
    by (simp add: pos_divide_le_eq mult.commute)
  then have "rne (s / 2 ^ ?k) \<le> rne (of_int (2 ^ 53))"
    by (rule rne_mono)
  then have "rne (s / 2 ^ ?k) \<le> 2 ^ 53"
    by (simp only: rne_of_int)
  then have "(of_int (rne (s / 2 ^ ?k)) :: rat) \<le> of_int (2 ^ 53)"
    by (simp only: of_int_le_iff)
  then have "of_int (rne (s / 2 ^ ?k)) * (2 :: rat) ^ ?k \<le> of_int (2 ^ 53) * 2 ^ ?k"
    by (rule mult_right_mono) simp
  then show ?thesis
    by (simp add: round_scaled_def power_add mult.commute)
qed

lemma round_scaled_lower:
  assumes "0 < binade s"
  shows "2 ^ (binade s + 52) \<le> round_scaled s"
proof -
  let ?k = "binade s"
  have "2 ^ ?k * 2 ^ 52 \<le> s"
    using above_binade [OF assms] by (simp add: power_add)
  then have "of_int (2 ^ 52) \<le> s / 2 ^ ?k"
    by (simp add: pos_le_divide_eq mult.commute)
  then have "rne (of_int (2 ^ 52)) \<le> rne (s / 2 ^ ?k)"
    by (rule rne_mono)
  then have "2 ^ 52 \<le> rne (s / 2 ^ ?k)"
    by (simp only: rne_of_int)
  then have "(of_int (2 ^ 52) :: rat) \<le> of_int (rne (s / 2 ^ ?k))"
    by (simp only: of_int_le_iff)
  then have "of_int (2 ^ 52) * (2 :: rat) ^ ?k \<le> of_int (rne (s / 2 ^ ?k)) * 2 ^ ?k"
    by (rule mult_right_mono) simp
  then show ?thesis
    by (simp add: round_scaled_def power_add mult.commute)
qed

lemma round_scaled_mono:
  assumes "0 \<le> s" and "s \<le> t"
  shows "round_scaled s \<le> round_scaled t"
proof (cases "binade s = binade t")
  case True
  have "s / 2 ^ binade t \<le> t / 2 ^ binade t"
    using assms(2) by (simp add: divide_right_mono)
  then have "rne (s / 2 ^ binade t) \<le> rne (t / 2 ^ binade t)"
    by (rule rne_mono)
  then have "(of_int (rne (s / 2 ^ binade t)) :: rat) \<le> of_int (rne (t / 2 ^ binade t))"
    by (simp only: of_int_le_iff)
  then have "of_int (rne (s / 2 ^ binade t)) * (2 :: rat) ^ binade t
             \<le> of_int (rne (t / 2 ^ binade t)) * 2 ^ binade t"
    by (rule mult_right_mono) simp
  then show ?thesis by (simp add: round_scaled_def True)
next
  case False
  then have less: "binade s < binade t"
    using binade_mono [OF assms(2)] by simp
  have "round_scaled s \<le> 2 ^ (binade s + 53)"
    using assms(1) by (rule round_scaled_upper)
  also have "\<dots> \<le> (2 :: rat) ^ (binade t + 52)"
    using less by (intro power_increasing) simp_all
  also have "\<dots> \<le> round_scaled t"
    using less by (intro round_scaled_lower) simp
  finally show ?thesis .
qed

lemma round_scaled_nonneg:
  assumes "0 \<le> s"
  shows "0 \<le> round_scaled s"
proof -
  have "0 \<le> s / 2 ^ binade s" using assms by simp
  then have "rne (of_int 0) \<le> rne (s / 2 ^ binade s)"
    by (intro rne_mono) simp
  then have "0 \<le> rne (s / 2 ^ binade s)"
    by (simp only: rne_of_int)
  then show ?thesis by (simp add: round_scaled_def)
qed

lemma binade_eq:
  assumes "2 ^ (52 + k) \<le> s" and "s < 2 ^ (53 + k)"
  shows "binade s = k"
proof -
  have "(of_int (2 ^ (52 + k)) :: rat) \<le> s" using assms(1) by simp
  then have lo: "2 ^ (52 + k) \<le> \<lfloor>s\<rfloor>" by (simp only: le_floor_iff)
  have "s < of_int (2 ^ (53 + k))" using assms(2) by simp
  then have hi: "\<lfloor>s\<rfloor> < 2 ^ (53 + k)" by (simp only: floor_less_iff)
  have "nat (int (53 + k)) = 53 + k" and "nat (int (53 + k)) - 1 = 52 + k"
    and "0 \<le> int (53 + k)" and "\<not> int (53 + k) \<le> 0"
    by simp_all
  then have "bitlen \<lfloor>s\<rfloor> \<le> int (53 + k)" and "int (53 + k) \<le> bitlen \<lfloor>s\<rfloor>"
    unfolding bitlen_le_iff_power bitlen_ge_iff_power using lo hi by metis+
  then have "bitlen \<lfloor>s\<rfloor> = int (53 + k)" by simp
  then show ?thesis by (simp add: binade_def)
qed

lemma binade_small:
  assumes "s < 2 ^ 53"
  shows "binade s = 0"
proof -
  have "s < of_int (2 ^ 53)" using assms by simp
  then have "\<lfloor>s\<rfloor> < 2 ^ 53" by (simp only: floor_less_iff)
  then have "bitlen \<lfloor>s\<rfloor> \<le> 53"
    by (simp add: bitlen_le_iff_power)
  then show ?thesis by (simp add: binade_def)
qed

lemma nearest_pos_mono:
  assumes "0 \<le> x" and "x \<le> y"
  shows "nearest_pos x \<le> nearest_pos y"
proof -
  have "round_scaled (x * 2 ^ 1074) \<le> round_scaled (y * 2 ^ 1074)"
    using assms by (intro round_scaled_mono) simp_all
  then show ?thesis
    unfolding nearest_pos_def by (rule divide_right_mono) simp
qed

lemma nearest_pos_nonneg:
  assumes "0 \<le> x"
  shows "0 \<le> nearest_pos x"
proof -
  have "0 \<le> round_scaled (x * 2 ^ 1074)"
    using assms by (intro round_scaled_nonneg) simp
  then show ?thesis
    unfolding nearest_pos_def by simp
qed

lemma nearest_double_mono:
  assumes "x \<le> y"
  shows "nearest_double x \<le> nearest_double y"
proof (cases "x < 0")
  case False
  then show ?thesis
    using assms by (simp add: nearest_double_def nearest_pos_mono)
next
  case True
  show ?thesis
  proof (cases "y < 0")
    case True
    then have "nearest_pos (- y) \<le> nearest_pos (- x)"
      using assms by (intro nearest_pos_mono) simp_all
    then show ?thesis
      using True \<open>x < 0\<close> by (simp add: nearest_double_def)
  next
    case False
    have "0 \<le> nearest_pos (- x)" and "0 \<le> nearest_pos y"
      using False \<open>x < 0\<close> by (simp_all add: nearest_pos_nonneg)
    then show ?thesis
      using False \<open>x < 0\<close> by (simp add: nearest_double_def)
  qed
qed

lemma round_double_mono:
  assumes "x \<le> y"
  shows "js_le (round_double x) (round_double y)"
  using nearest_double_mono [OF assms]
  by (auto simp: round_double_def Let_def)

lemma js_le_trans:
  assumes "js_le a b" and "js_le b c"
  shows "js_le a c"
  using assms by (cases a; cases b; cases c) simp_all

lemma js_div_mono:
  assumes "0 < d" and "js_lt a b"
  shows "js_le (js_div a d) (js_div b d)"
proof (cases "\<exists>x y. a = Fin x \<and> b = Fin y")
  case True
  then obtain x y where a: "a = Fin x" and b: "b = Fin y" by blast
  then have "x / d \<le> y / d"
    using assms by (simp add: divide_right_mono)
  then show ?thesis
    by (simp add: a b js_div_def round_double_mono)
next
  case False
  then show ?thesis
    using assms
    by (cases a; cases b) (simp_all add: js_div_def round_double_def Let_def)
qed

lemma nearest_pos_zero: "nearest_pos 0 = 0"
proof -
  have "binade 0 = 0" by (rule binade_small) simp
  then show ?thesis by (simp add: nearest_pos_def round_scaled_def rne_def)
qed

lemma nearest_pos_scaled_up:
  assumes "j \<le> 1074" and "2 ^ 52 \<le> x * 2 ^ j" and "x * 2 ^ j < 2 ^ 53"
  shows "nearest_pos x = of_int (rne (x * 2 ^ j)) / 2 ^ j"
proof -
  define N :: nat where "N = 1074"
  define k where "k = N - j"
  have np: "nearest_pos x = round_scaled (x * 2 ^ N) / 2 ^ N"
    by (simp add: nearest_pos_def N_def)
  have "j + k = N"
    using assms(1) by (simp add: k_def N_def)
  then have p: "(2 :: rat) ^ N = 2 ^ j * 2 ^ k"
    by (simp flip: power_add)
  have s: "x * 2 ^ N = (x * 2 ^ j) * 2 ^ k"
    by (simp add: p)
  have "2 ^ 52 * 2 ^ k \<le> (x * 2 ^ j) * 2 ^ k"
    using assms(2) by (rule mult_right_mono) simp
  then have lo: "2 ^ (52 + k) \<le> x * 2 ^ N"
    by (simp only: s power_add)
  have "(x * 2 ^ j) * 2 ^ k < 2 ^ 53 * 2 ^ k"
    using assms(3) by (rule mult_strict_right_mono) simp
  then have hi: "x * 2 ^ N < 2 ^ (53 + k)"
    by (simp only: s power_add)
  have b: "binade (x * 2 ^ N) = k"
    using lo hi by (rule binade_eq)
  have "round_scaled (x * 2 ^ N) = of_int (rne ((x * 2 ^ j) * 2 ^ k / 2 ^ k)) * 2 ^ k"
    unfolding round_scaled_def b by (simp only: s)
  then have "round_scaled (x * 2 ^ N) = of_int (rne (x * 2 ^ j)) * 2 ^ k"
    by simp
  then show ?thesis
    unfolding np by (simp add: p)
qed

lemma nearest_pos_scaled_down:
  assumes "2 ^ 52 \<le> x / 2 ^ i" and "x / 2 ^ i < 2 ^ 53"
  shows "nearest_pos x = of_int (rne (x / 2 ^ i)) * 2 ^ i"
proof -
  define N :: nat where "N = 1074"
  define k where "k = N + i"
  have np: "nearest_pos x = round_scaled (x * 2 ^ N) / 2 ^ N"
    by (simp add: nearest_pos_def N_def)
  have p: "(2 :: rat) ^ k = 2 ^ N * 2 ^ i"
    by (simp add: k_def power_add)
  have s: "x * 2 ^ N = (x / 2 ^ i) * 2 ^ k"
    by (simp add: p)
  have "2 ^ 52 * 2 ^ k \<le> (x / 2 ^ i) * 2 ^ k"
    using assms(1) by (rule mult_right_mono) simp
  then have lo: "2 ^ (52 + k) \<le> x * 2 ^ N"
    by (simp only: s power_add)
  have "(x / 2 ^ i) * 2 ^ k < 2 ^ 53 * 2 ^ k"
    using assms(2) by (rule mult_strict_right_mono) simp
  then have hi: "x * 2 ^ N < 2 ^ (53 + k)"
    by (simp only: s power_add)
  have b: "binade (x * 2 ^ N) = k"
    using lo hi by (rule binade_eq)
  have "round_scaled (x * 2 ^ N) = of_int (rne ((x / 2 ^ i) * 2 ^ k / 2 ^ k)) * 2 ^ k"
    unfolding round_scaled_def b by (simp only: s)
  then have "round_scaled (x * 2 ^ N) = of_int (rne (x / 2 ^ i)) * 2 ^ k"
    by simp
  then show ?thesis
    unfolding np by (simp add: p)
qed

lemma rne_nearest:
  assumes "of_int n - 1 / 2 < x" and "x < of_int n + 1 / 2"
  shows "rne x = n"
proof (cases "of_int n \<le> x")
  case True
  then have "\<lfloor>x\<rfloor> = n"
    using assms(2) by (intro floor_unique) simp_all
  then show ?thesis
    using assms(2) by (simp add: rne_def Let_def)
next
  case False
  then have "\<lfloor>x\<rfloor> = n - 1"
    using assms(1) by (intro floor_unique) simp_all
  then show ?thesis
    using assms(1) by (simp add: rne_def Let_def)
qed

lemma nearest_double_long_scale: "nearest_double 0xfffffffffffffff = 1152921504606846976"
proof -
  have np: "nearest_pos 0xfffffffffffffff
            = of_int (rne (0xfffffffffffffff / 2 ^ 7)) * 2 ^ 7"
    by (rule nearest_pos_scaled_down) simp_all
  have r: "rne (0xfffffffffffffff / 2 ^ 7) = 9007199254740992"
    by (rule rne_nearest) simp_all
  have "nearest_double 0xfffffffffffffff = nearest_pos 0xfffffffffffffff"
    by (simp add: nearest_double_def)
  then show ?thesis unfolding np r by simp
qed

lemma nearest_double_one: "nearest_double 1 = 1"
proof -
  have np: "nearest_pos 1 = of_int (rne (1 * 2 ^ 52)) / 2 ^ 52"
    by (rule nearest_pos_scaled_up) simp_all
  have r: "rne (1 * 2 ^ 52) = 2 ^ 52"
    using rne_of_int [of "2 ^ 52"] by simp
  have "nearest_double 1 = nearest_pos 1"
    by (simp add: nearest_double_def)
  then show ?thesis unfolding np r by simp
qed

lemma nearest_double_zero: "nearest_double 0 = 0"
  by (simp add: nearest_double_def nearest_pos_zero)

lemma nearest_double_a_b: "nearest_double 0x69f6642c9d71b46 = 477212522564754240"
proof -
  have np: "nearest_pos 0x69f6642c9d71b46
            = of_int (rne (0x69f6642c9d71b46 / 2 ^ 6)) * 2 ^ 6"
    by (rule nearest_pos_scaled_down) simp_all
  have r: "rne (0x69f6642c9d71b46 / 2 ^ 6) = 7456445665074285"
    by (rule rne_nearest) simp_all
  have "nearest_double 0x69f6642c9d71b46 = nearest_pos 0x69f6642c9d71b46"
    by (simp add: nearest_double_def)
  then show ?thesis unfolding np r by simp
qed

lemma nearest_double_quotient_a_b:
  "nearest_double (477212522564754240 / 2 ^ 60) = 7456445665074285 / 18014398509481984"
proof -
  have np: "nearest_pos (477212522564754240 / 2 ^ 60)
        = of_int (rne (477212522564754240 / 2 ^ 60 * 2 ^ 54)) / 2 ^ 54"
    by (rule nearest_pos_scaled_up) simp_all
  have r: "rne (477212522564754240 / 2 ^ 60 * 2 ^ 54) = 7456445665074285"
    using rne_of_int [of 7456445665074285] by simp
  have "nearest_double (477212522564754240 / 2 ^ 60)
        = nearest_pos (477212522564754240 / 2 ^ 60)"
    by (simp add: nearest_double_def)
  then show ?thesis unfolding np r by simp
qed

lemma nearest_double_42: "nearest_double (42 / 100) = 7566047373982433 / 18014398509481984"
proof -
  have np: "nearest_pos (42 / 100) = of_int (rne (42 / 100 * 2 ^ 54)) / 2 ^ 54"
    by (rule nearest_pos_scaled_up) simp_all
  have r: "rne (42 / 100 * 2 ^ 54) = 7566047373982433"
    by (rule rne_nearest) simp_all
  have "nearest_double (42 / 100) = nearest_pos (42 / 100)"
    by (simp add: nearest_double_def)
  then show ?thesis unfolding np r by simp
qed

lemma nearest_double_40: "nearest_double (40 / 100) = 7205759403792794 / 18014398509481984"
proof -
  have np: "nearest_pos (40 / 100) = of_int (rne (40 / 100 * 2 ^ 54)) / 2 ^ 54"
    by (rule nearest_pos_scaled_up) simp_all
  have r: "rne (40 / 100 * 2 ^ 54) = 7205759403792794"
    by (rule rne_nearest) simp_all
  have "nearest_double (40 / 100) = nearest_pos (40 / 100)"
    by (simp add: nearest_double_def)
  then show ?thesis unfolding np r by simp
qed

lemma round_double_finite:
  assumes "- (2 ^ 1024) < nearest_double x" and "nearest_double x < 2 ^ 1024"
  shows "round_double x = Fin (nearest_double x)"
  using assms by (simp add: round_double_def Let_def)

text \<open>
  An integer of magnitude below \<open>2 ^ 53\<close> is a double: rounding leaves it as it is.
\<close>

lemma scale_to_mantissa:
  fixes n :: nat
  assumes "0 < n" and "n < 2 ^ 53"
  shows "\<exists>j. 2 ^ 52 \<le> n * 2 ^ j \<and> n * 2 ^ j < 2 ^ 53"
  using assms
proof (induction "2 ^ 53 - n" arbitrary: n rule: less_induct)
  case less
  show ?case
  proof (cases "2 ^ 52 \<le> n")
    case True
    then have "2 ^ 52 \<le> n * 2 ^ 0 \<and> n * 2 ^ 0 < 2 ^ 53" using less.prems by simp
    then show ?thesis by blast
  next
    case False
    then have d: "2 * n < 2 ^ 53" by simp
    have "2 ^ 53 - 2 * n < 2 ^ 53 - n" using less.prems d by simp
    then obtain j where "2 ^ 52 \<le> (2 * n) * 2 ^ j \<and> (2 * n) * 2 ^ j < 2 ^ 53"
      using less.hyps [of "2 * n"] less.prems d by auto
    then have "2 ^ 52 \<le> n * 2 ^ Suc j \<and> n * 2 ^ Suc j < 2 ^ 53"
      by (simp add: mult.assoc mult.left_commute)
    then show ?thesis by blast
  qed
qed

lemma nearest_pos_of_nat:
  fixes n :: nat
  assumes "n < 2 ^ 53"
  shows "nearest_pos (of_nat n) = of_nat n"
proof (cases "n = 0")
  case True
  then show ?thesis by (simp add: nearest_pos_zero)
next
  case False
  then obtain j where j: "2 ^ 52 \<le> n * 2 ^ j" "n * 2 ^ j < 2 ^ 53"
    using scale_to_mantissa [of n] assms by auto
  have "(2 :: nat) ^ j \<le> n * 2 ^ j" using False by simp
  then have "(2 :: nat) ^ j < 2 ^ 53" using j(2) by (rule le_less_trans)
  then have "j < 53" by (simp only: power_strict_increasing_iff one_less_numeral_iff semiring_norm)
  then have jb: "j \<le> 1074" by simp
  have e: "(of_nat n :: rat) * 2 ^ j = of_nat (n * 2 ^ j)" by simp
  have lo: "(2 :: rat) ^ 52 \<le> of_nat n * 2 ^ j"
    unfolding e using j(1) by (metis of_nat_le_iff of_nat_numeral of_nat_power)
  have hi: "(of_nat n :: rat) * 2 ^ j < 2 ^ 53"
    unfolding e using j(2) by (metis of_nat_less_iff of_nat_numeral of_nat_power)
  have "nearest_pos (of_nat n) = of_int (rne (of_nat n * 2 ^ j)) / 2 ^ j"
    using jb lo hi by (rule nearest_pos_scaled_up)
  also have "rne (of_nat n * 2 ^ j) = int (n * 2 ^ j)"
    using rne_of_int [of "int (n * 2 ^ j)"] by simp
  finally show ?thesis by simp
qed

lemma nearest_double_of_int:
  assumes "\<bar>k\<bar> < 2 ^ 53"
  shows "nearest_double (of_int k) = of_int k"
proof -
  have n: "nat \<bar>k\<bar> < 2 ^ 53" using assms by (simp add: nat_less_iff)
  have p: "nearest_pos (of_int \<bar>k\<bar>) = of_int \<bar>k\<bar>"
    using nearest_pos_of_nat [OF n] by simp
  show ?thesis
  proof (cases "k < 0")
    case True
    then have "\<bar>k\<bar> = - k" by simp
    then show ?thesis using p True by (simp add: nearest_double_def)
  next
    case False
    then have "\<bar>k\<bar> = k" by simp
    then show ?thesis using p False by (simp add: nearest_double_def)
  qed
qed

lemma round_double_of_int:
  assumes "\<bar>k\<bar> < 2 ^ 53"
  shows "round_double (of_int k) = Fin (of_int k)"
proof -
  have "\<bar>k\<bar> < 2 ^ 1024" using assms by (rule less_trans) simp
  have a: "\<bar>of_int k :: rat\<bar> < 2 ^ 1024"
  proof -
    have "(of_int \<bar>k\<bar> :: rat) < of_int (2 ^ 1024)"
      using \<open>\<bar>k\<bar> < 2 ^ 1024\<close> by (simp only: of_int_less_iff)
    then show ?thesis by simp
  qed
  show ?thesis
    by (rule round_double_finite [of "of_int k", unfolded nearest_double_of_int [OF assms]])
       (use a in \<open>simp_all add: abs_less_iff\<close>)
qed

lemma round_double_numeral:
  "numeral k < (2 :: int) ^ 53 \<Longrightarrow> round_double (numeral k) = Fin (numeral k)"
  using round_double_of_int [of "numeral k"] by simp

section \<open>SHA-1 of \<open>a.b\<close>\<close>

lemma be_bytes_numeral:
  "be_bytes (numeral k) v = be_bytes (pred_numeral k) (v div 256) @ [of_nat (v mod 256)]"
  by (metis be_bytes.simps(2) numeral_eq_Suc)

lemma replicate_numeral_Cons: "replicate (numeral k) x = x # replicate (pred_numeral k) x"
  by (simp add: numeral_eq_Suc)

lemma schedule_numeral:
  "schedule (numeral k) ws =
     hd ws # schedule (pred_numeral k)
       (tl ws @ [rotl32 1 (ws ! 13 XOR ws ! 8 XOR ws ! 2 XOR ws ! 0)])"
  by (metis schedule.simps(2) numeral_eq_Suc)

lemma and_ones32: "(x :: u32) AND 0xFFFFFFFF = x"
proof -
  have h: "(0xFFFFFFFF :: u32) = - 1" by simp
  show ?thesis unfolding h by (rule and.right_neutral)
qed

lemma rotl32_reduced: "rotl32 n x = (push_bit n x OR drop_bit (32 - n) x) AND 0xFFFFFFFF"
  by (simp only: and_ones32 rotl32_def)

lemma sha1_round_reduced:
  "sha1_round (a, b, c, d, e) (t, w) =
     ((rotl32 5 a + sha1_f t b c d + e + sha1_k t + w) AND 0xFFFFFFFF, a, rotl32 30 b, c, d)"
  by (simp only: and_ones32 sha1_round.simps)

lemma sha1_pad_a_b:
  "sha1_pad [0x61, 0x2e, 0x62] = [0x61, 0x2e, 0x62, 0x80] @ replicate 59 0 @ [24]"
  by (simp add: sha1_pad_def be_bytes_numeral replicate_numeral_Cons)

lemma words_of_a_b:
  "words_of (take 64 (sha1_pad [0x61, 0x2e, 0x62])) = 0x612E6280 # replicate 14 0 @ [24]"
  unfolding sha1_pad_a_b by (simp add: be32_def replicate_numeral_Cons)

lemma schedule_a_b:
  "schedule 80 (words_of (take 64 (sha1_pad [0x61, 0x2e, 0x62]))) =
     0x612E6280 # replicate 14 0 @ [
      0x00000018,
      0xC25CC500, 0x00000000, 0x00000030, 0x84B98A01,
      0x00000000, 0x00000060, 0x09731403, 0x00000030,
      0x84B98AC1, 0x12E62806, 0x00000000, 0x00000180,
      0x25CC500C, 0x000000F0, 0x965FA107, 0x4B98A048,
      0x8DCA9E02, 0x00000600, 0x973140F0, 0x12E62BC6,
      0x597E841E, 0x2E6280A1, 0x12E62806, 0x000018C0,
      0x4E2328C4, 0x00000F00, 0x65FA1079, 0xB98A04E4,
      0xD5DAF42B, 0x000060C0, 0x61F227CF, 0x3C849547,
      0xA9B12DEC, 0xE6280A12, 0x2E6283A1, 0x597F04DE,
      0xF0D4A442, 0x0000F600, 0xC89047A6, 0x98A04D8B,
      0x04D1C6A3, 0x2E648CA1, 0x0DC454F0, 0xC8494CB3,
      0xD531F60E, 0x6280AEEE, 0x9134026D, 0x2E7A49A1,
      0xC3058C01, 0x000F0000, 0xFA107565, 0xA46664D8,
      0xDAF42BD5, 0x0060C000, 0xF227CF61, 0x849546BC,
      0x94E1BCA5, 0x280A1EE6, 0x4CE1224F, 0x349C7441,
      0x6DF782A1, 0x00F60A00, 0x29146A99, 0x8E2F1B79]"
  unfolding words_of_a_b
  by (simp add: schedule_numeral rotl32_reduced replicate_numeral_Cons)

lemma rounds_a_b:
  "foldl sha1_round sha1_init
     (enumerate 0 (schedule 80 (words_of (take 64 (sha1_pad [0x61, 0x2e, 0x62])))))
   = (0x02B1412B, 0xADA408DA, 0xAFA072B1, 0x3E66494D, 0x3AA4C6D6)"
  unfolding schedule_a_b sha1_init_def
  by (simp add: sha1_round_reduced rotl32_reduced sha1_f_def sha1_k_def replicate_numeral_Cons
      del: sha1_round.simps)

lemma sha1_a_b:
  "sha1 [0x61, 0x2e, 0x62] = (0x69f6642c, 0x9d71b463, 0x485b4faf, 0x4e989dc3, 0xfe77a8c6)"
proof -
  have l: "length (sha1_pad [0x61, 0x2e, 0x62]) div 64 = Suc 0"
    unfolding sha1_pad_a_b by simp
  show ?thesis
    unfolding sha1_def Let_def l sha1_blocks.simps sha1_block_def rounds_a_b
    by (simp add: sha1_init_def)
qed

lemma sha1_hex_a_b: "sha1_hex ''a.b'' = ''69f6642c9d71b463485b4faf4e989dc3fe77a8c6''"
  by (simp add: sha1_hex_def sha1_a_b word_bytes_def hex_of_byte_def hex_digit_def)

section \<open>The digest prefix and its quotient\<close>

lemma hex_digit_value:
  assumes "n < 16"
  shows "hex_value (hex_digit n) = Some n"
proof -
  have "\<forall>m \<in> set [0..<16]. hex_value (hex_digit m) = Some m"
    by (simp add: upt_conv_Cons hex_digit_def hex_value_def)
  then show ?thesis using assms by simp
qed

lemma hex_of_byte_chars: "\<forall>c \<in> set (hex_of_byte b). hex_char c"
proof -
  have "unat b < 256" using unsigned_less [of b] by simp
  then have "unat b div 16 < 16" and "unat b mod 16 < 16" by simp_all
  then show ?thesis
    unfolding hex_char_def hex_of_byte_def by (auto simp: hex_digit_value)
qed

lemma length_hex_of_byte: "length (hex_of_byte b) = 2"
  by (simp add: hex_of_byte_def)

lemma digest_hex_chars: "\<forall>c \<in> set (digest_hex h). hex_char c"
  by (cases h) (auto simp: hex_of_byte_chars)

lemma length_digest_hex: "length (digest_hex h) = 40"
  by (cases h) (simp add: word_bytes_def length_hex_of_byte)

lemma hex_number_step:
  assumes "\<forall>c \<in> set ds. hex_char c"
  shows "foldl (\<lambda>acc c. 16 * acc + the (hex_value c)) acc ds + 1 \<le> (acc + 1) * 16 ^ length ds"
  using assms
proof (induction ds arbitrary: acc)
  case Nil
  then show ?case by simp
next
  case (Cons c ds)
  then obtain v where v: "v < 16" "hex_value c = Some v"
    by (auto simp: hex_char_def split: option.splits)
  have "foldl (\<lambda>acc c. 16 * acc + the (hex_value c)) (16 * acc + v) ds + 1
        \<le> (16 * acc + v + 1) * 16 ^ length ds"
    using Cons.prems by (intro Cons.IH) simp
  also have "\<dots> \<le> (16 * (acc + 1)) * 16 ^ length ds"
    using v(1) by (intro mult_right_mono) simp_all
  finally show ?case using v(2) by (simp add: algebra_simps)
qed

lemma hex_number_less:
  assumes "\<forall>c \<in> set ds. hex_char c"
  shows "hex_number ds < 16 ^ length ds"
  using hex_number_step [OF assms, of 0] by (simp add: hex_number_def)

lemma parseInt16_hex:
  assumes "\<forall>c \<in> set ds. hex_char c" and "ds \<noteq> []"
  shows "parseInt16 ds = round_double (of_nat (hex_number ds))"
proof -
  have "\<forall>c \<in> set ds. hex_value c \<noteq> None"
    using assms(1) by (auto simp: hex_char_def split: option.splits)
  then have tw: "takeWhile (\<lambda>c. hex_value c \<noteq> None) ds = ds"
    by (rule takeWhile_eq_all_conv [THEN iffD2])
  show ?thesis
    unfolding parseInt16_def Let_def tw using assms(2) by simp
qed

lemma long_scale: "LONG_SCALE = 2 ^ 60"
  by (simp add: LONG_SCALE_def nearest_double_long_scale)

lemma round_double_unit:
  assumes "0 \<le> x" and "x \<le> 1"
  shows "\<exists>q. round_double x = Fin q \<and> 0 \<le> q \<and> q \<le> 1"
proof -
  have "nearest_double 0 \<le> nearest_double x" and "nearest_double x \<le> nearest_double 1"
    using assms by (simp_all add: nearest_double_mono)
  then have "0 \<le> nearest_double x" and "nearest_double x \<le> 1"
    by (simp_all add: nearest_double_zero nearest_double_one)
  then show ?thesis by (simp add: round_double_def Let_def)
qed

lemma hash_subset_range:
  "\<exists>a. parseInt16 (take 15 (sha1_hex s)) = Fin a \<and> 0 \<le> a \<and> a \<le> 2 ^ 60"
proof -
  let ?ds = "take 15 (sha1_hex s)"
  have chars: "\<forall>c \<in> set ?ds. hex_char c"
    using digest_hex_chars [of "sha1 (map of_char s)"]
    by (auto simp: sha1_hex_def dest: in_set_takeD)
  have len: "length ?ds = 15"
    by (simp add: sha1_hex_def length_digest_hex)
  then have "?ds \<noteq> []" by auto
  with chars have p: "parseInt16 ?ds = round_double (of_nat (hex_number ?ds))"
    by (rule parseInt16_hex)
  have "hex_number ?ds < 16 ^ 15"
    using hex_number_less [OF chars] len by simp
  then have "hex_number ?ds \<le> 0xfffffffffffffff" by simp
  then have "(of_nat (hex_number ?ds) :: rat) \<le> of_nat 0xfffffffffffffff"
    by (simp only: of_nat_le_iff)
  then have le: "(of_nat (hex_number ?ds) :: rat) \<le> 0xfffffffffffffff" by simp
  have "nearest_double 0 \<le> nearest_double (of_nat (hex_number ?ds))"
    by (intro nearest_double_mono) simp
  then have lo: "0 \<le> nearest_double (of_nat (hex_number ?ds))"
    by (simp add: nearest_double_zero)
  have "nearest_double (of_nat (hex_number ?ds)) \<le> nearest_double 0xfffffffffffffff"
    using le by (rule nearest_double_mono)
  then have hi: "nearest_double (of_nat (hex_number ?ds)) \<le> 2 ^ 60"
    by (simp add: nearest_double_long_scale)
  have "(2 :: rat) ^ 60 < 2 ^ 1024"
    by (intro power_strict_increasing) simp_all
  then have "round_double (of_nat (hex_number ?ds)) = Fin (nearest_double (of_nat (hex_number ?ds)))"
    using lo hi by (intro round_double_finite) linarith+
  then show ?thesis using p lo hi by simp
qed

lemma hash_quotient_range:
  "\<exists>q. hash_quotient key distinctId = Fin q \<and> 0 \<le> q \<and> q \<le> 1"
proof -
  obtain a where a: "parseInt16 (take 15 (sha1_hex (key @ ''.'' @ distinctId))) = Fin a"
    and "0 \<le> a" and "a \<le> 2 ^ 60"
    using hash_subset_range by blast
  then have "0 \<le> a / 2 ^ 60" and "a / 2 ^ 60 \<le> 1" by simp_all
  then have "\<exists>q. round_double (a / 2 ^ 60) = Fin q \<and> 0 \<le> q \<and> q \<le> 1"
    by (rule round_double_unit)
  then show ?thesis
    unfolding hash_quotient_def Let_def a js_div_def long_scale by simp
qed

text \<open>
  The quotient is 1 exactly for the 64 largest digest prefixes, those from
  \<open>fffffffffffffc0\<close> on: \<open>parseInt\<close> rounds them to \<open>2 ^ 60\<close>, which is \<open>LONG_SCALE\<close>.
  Every smaller prefix gives a quotient of at most \<open>1 - 1 / 2 ^ 53\<close>.
\<close>

lemma nearest_double_top_tie: "nearest_double 1152921504606846912 = 1152921504606846976"
proof -
  have np: "nearest_pos 1152921504606846912
            = of_int (rne (1152921504606846912 / 2 ^ 7)) * 2 ^ 7"
    by (rule nearest_pos_scaled_down) simp_all
  have f: "\<lfloor>1152921504606846912 / 2 ^ 7 :: rat\<rfloor> = 9007199254740991"
    by (rule floor_unique) simp_all
  have r: "rne (1152921504606846912 / 2 ^ 7) = 9007199254740992"
    unfolding rne_def Let_def f by simp
  have "nearest_double 1152921504606846912 = nearest_pos 1152921504606846912"
    by (simp add: nearest_double_def)
  then show ?thesis unfolding np r by simp
qed

lemma nearest_double_below_top: "nearest_double 1152921504606846911 = 1152921504606846848"
proof -
  have np: "nearest_pos 1152921504606846911
            = of_int (rne (1152921504606846911 / 2 ^ 7)) * 2 ^ 7"
    by (rule nearest_pos_scaled_down) simp_all
  have r: "rne (1152921504606846911 / 2 ^ 7) = 9007199254740991"
    by (rule rne_nearest) simp_all
  have "nearest_double 1152921504606846911 = nearest_pos 1152921504606846911"
    by (simp add: nearest_double_def)
  then show ?thesis unfolding np r by simp
qed

lemma nearest_double_below_one:
  "nearest_double (1152921504606846848 / 2 ^ 60) = 9007199254740991 / 9007199254740992"
proof -
  have np: "nearest_pos (1152921504606846848 / 2 ^ 60)
        = of_int (rne (1152921504606846848 / 2 ^ 60 * 2 ^ 53)) / 2 ^ 53"
    by (rule nearest_pos_scaled_up) simp_all
  have r: "rne (1152921504606846848 / 2 ^ 60 * 2 ^ 53) = 9007199254740991"
    using rne_of_int [of 9007199254740991] by simp
  have "nearest_double (1152921504606846848 / 2 ^ 60)
        = nearest_pos (1152921504606846848 / 2 ^ 60)"
    by (simp add: nearest_double_def)
  then show ?thesis unfolding np r by simp
qed

lemma hash_quotient_one_iff:
  "hash_quotient key distinctId = Fin 1
   \<longleftrightarrow> 2 ^ 60 - 64 \<le> hex_number (take 15 (sha1_hex (key @ ''.'' @ distinctId)))"
proof -
  let ?ds = "take 15 (sha1_hex (key @ ''.'' @ distinctId))"
  define n where "n = hex_number ?ds"
  define a where "a = nearest_double (of_nat n)"
  have chars: "\<forall>c \<in> set ?ds. hex_char c"
    using digest_hex_chars [of "sha1 (map of_char (key @ ''.'' @ distinctId))"]
    by (auto simp: sha1_hex_def dest: in_set_takeD)
  have len: "length ?ds = 15"
    by (simp add: sha1_hex_def length_digest_hex)
  then have "?ds \<noteq> []" by auto
  with chars have p: "parseInt16 ?ds = round_double (of_nat n)"
    unfolding n_def by (rule parseInt16_hex)
  have "n < 16 ^ 15"
    using hex_number_less [OF chars] len by (simp add: n_def)
  then have top: "n \<le> 1152921504606846975" by simp
  have "(of_nat n :: rat) \<le> of_nat 1152921504606846975"
    using top by (simp only: of_nat_le_iff)
  then have le: "(of_nat n :: rat) \<le> 0xfffffffffffffff" by simp
  have "nearest_double 0 \<le> a"
    unfolding a_def by (intro nearest_double_mono) simp
  then have lo: "0 \<le> a"
    by (simp add: nearest_double_zero)
  have "a \<le> nearest_double 0xfffffffffffffff"
    unfolding a_def using le by (rule nearest_double_mono)
  then have hi: "a \<le> 2 ^ 60"
    by (simp add: nearest_double_long_scale)
  have "(2 :: rat) ^ 60 < 2 ^ 1024"
    by (intro power_strict_increasing) simp_all
  then have "- (2 ^ 1024) < a" and "a < 2 ^ 1024"
    using lo hi by linarith+
  then have "round_double (of_nat n) = Fin a"
    unfolding a_def by (rule round_double_finite)
  then have sub: "parseInt16 ?ds = Fin a" using p by simp
  have q: "hash_quotient key distinctId = round_double (a / 2 ^ 60)"
    unfolding hash_quotient_def Let_def sub js_div_def long_scale by simp
  show ?thesis
  proof (cases "2 ^ 60 - 64 \<le> n")
    case True
    then have "(1152921504606846912 :: nat) \<le> n" by simp
    then have "(of_nat 1152921504606846912 :: rat) \<le> of_nat n"
      by (simp only: of_nat_le_iff)
    then have "(1152921504606846912 :: rat) \<le> of_nat n" by simp
    then have "nearest_double 1152921504606846912 \<le> a"
      unfolding a_def by (rule nearest_double_mono)
    then have "2 ^ 60 \<le> a" by (simp add: nearest_double_top_tie)
    then have "a = 2 ^ 60" using hi by simp
    then have "hash_quotient key distinctId = round_double 1"
      using q by simp
    then have "hash_quotient key distinctId = Fin 1"
      by (simp add: round_double_def nearest_double_one)
    then show ?thesis using True by (simp add: n_def)
  next
    case False
    then have "n \<le> 1152921504606846911" by simp
    then have "(of_nat n :: rat) \<le> of_nat 1152921504606846911"
      by (simp only: of_nat_le_iff)
    then have "(of_nat n :: rat) \<le> 1152921504606846911" by simp
    then have "a \<le> nearest_double 1152921504606846911"
      unfolding a_def by (rule nearest_double_mono)
    then have "a \<le> 1152921504606846848" by (simp add: nearest_double_below_top)
    then have "a / 2 ^ 60 \<le> 1152921504606846848 / 2 ^ 60"
      by (simp add: divide_right_mono)
    then have "nearest_double (a / 2 ^ 60) \<le> nearest_double (1152921504606846848 / 2 ^ 60)"
      by (rule nearest_double_mono)
    then have b: "nearest_double (a / 2 ^ 60) \<le> 9007199254740991 / 9007199254740992"
      by (simp only: nearest_double_below_one)
    have "round_double (a / 2 ^ 60) \<noteq> Fin 1"
    proof
      assume "round_double (a / 2 ^ 60) = Fin 1"
      then have "nearest_double (a / 2 ^ 60) = 1"
        by (simp add: round_double_def Let_def split: if_splits)
      then show False using b by simp
    qed
    then show ?thesis using False q by (simp add: n_def)
  qed
qed

section \<open>The rollout decision for key \<open>a\<close> and subject \<open>b\<close>\<close>

lemma hash_subset_a_b:
  "parseInt16 (take 15 (sha1_hex (''a'' @ ''.'' @ ''b''))) = Fin 477212522564754240"
proof -
  have "take 15 (sha1_hex (''a'' @ ''.'' @ ''b'')) = ''69f6642c9d71b46''"
    by (simp add: sha1_hex_a_b)
  moreover have "takeWhile (\<lambda>c. hex_value c \<noteq> None) ''69f6642c9d71b46'' = ''69f6642c9d71b46''"
    by (simp add: hex_value_def)
  moreover have "hex_number ''69f6642c9d71b46'' = 0x69f6642c9d71b46"
    by (simp add: hex_number_def hex_value_def)
  moreover have "round_double 0x69f6642c9d71b46 = Fin 477212522564754240"
    by (simp add: round_double_def nearest_double_a_b)
  ultimately show ?thesis
    by (simp add: parseInt16_def)
qed

lemma round_double_quotient_a_b:
  "round_double (477212522564754240 / 2 ^ 60) = Fin (7456445665074285 / 18014398509481984)"
proof -
  have "round_double (477212522564754240 / 2 ^ 60)
        = Fin (nearest_double (477212522564754240 / 2 ^ 60))"
    by (rule round_double_finite) (simp_all only: nearest_double_quotient_a_b, simp_all)
  then show ?thesis by (simp only: nearest_double_quotient_a_b)
qed

lemma round_double_42:
  "round_double (42 / 100) = Fin (7566047373982433 / 18014398509481984)"
proof -
  have "round_double (42 / 100) = Fin (nearest_double (42 / 100))"
    by (rule round_double_finite) (simp_all only: nearest_double_42, simp_all)
  then show ?thesis by (simp only: nearest_double_42)
qed

lemma round_double_40:
  "round_double (40 / 100) = Fin (7205759403792794 / 18014398509481984)"
proof -
  have "round_double (40 / 100) = Fin (nearest_double (40 / 100))"
    by (rule round_double_finite) (simp_all only: nearest_double_40, simp_all)
  then show ?thesis by (simp only: nearest_double_40)
qed

lemma hash_quotient_a_b:
  "hash_quotient ''a'' ''b'' = Fin (7456445665074285 / 18014398509481984)"
  by (simp only: hash_quotient_def Let_def hash_subset_a_b js_div_def jsnum.case long_scale
      round_double_quotient_a_b)

lemma percent_42:
  "js_div (ToNumber (Number (Fin 42))) 100 = Fin (7566047373982433 / 18014398509481984)"
  by (simp only: js_div_def ToNumber.simps jsnum.case round_double_42)

lemma percent_40:
  "js_div (ToNumber (Number (Fin 40))) 100 = Fin (7205759403792794 / 18014398509481984)"
  by (simp only: js_div_def ToNumber.simps jsnum.case round_double_40)

lemma enabled_a_b_42: "private_isSimpleFlagEnabled ''a'' ''b'' (Number (Fin 42))"
  unfolding private_isSimpleFlagEnabled_def hash_quotient_a_b percent_42 by simp

lemma disabled_a_b_40: "\<not> private_isSimpleFlagEnabled ''a'' ''b'' (Number (Fin 40))"
  unfolding private_isSimpleFlagEnabled_def hash_quotient_a_b percent_40 by simp

lemma top_quotient: "js_div (parseInt16 ''fffffffffffffff'') LONG_SCALE = Fin 1"
proof -
  have "takeWhile (\<lambda>c. hex_value c \<noteq> None) ''fffffffffffffff'' = ''fffffffffffffff''"
    by (simp add: hex_value_def)
  moreover have "hex_number ''fffffffffffffff'' = 0xfffffffffffffff"
    by (simp add: hex_number_def hex_value_def)
  moreover have "round_double 0xfffffffffffffff = Fin 1152921504606846976"
    by (simp add: round_double_def nearest_double_long_scale)
  ultimately have "parseInt16 ''fffffffffffffff'' = Fin 1152921504606846976"
    by (simp add: parseInt16_def)
  moreover have "round_double (1152921504606846976 / 1152921504606846976) = Fin 1"
    by (simp add: round_double_def nearest_double_one)
  ultimately show ?thesis
    unfolding js_div_def long_scale by simp
qed

lemma percent_100: "js_div (ToNumber (Number (Fin 100))) 100 = Fin 1"
  by (simp add: js_div_def round_double_def nearest_double_one)

text \<open>
  C1. With a \<open>rolloutPercentage\<close> that is not falsy, \<open>_isSimpleFlagEnabled\<close> is the
  comparison of the quotient, the first 15 hex digits of the SHA-1 digest of
  \<open>key.distinctId\<close> read in base 16 and divided by \<open>LONG_SCALE\<close>, with
  \<open>rolloutPercentage / 100\<close>, both in double arithmetic. For key \<open>a\<close> and subject \<open>b\<close>
  the digest is \<open>69f6642c9d71b463485b4faf4e989dc3fe77a8c6\<close> and the quotient is the double
  0.4139158829615955 (within \<open>5 / 10 ^ 17\<close> of it), so 42 enables the flag and 40 does
  not. As a double, the literal \<open>0xfffffffffffffff\<close> is \<open>2 ^ 60\<close>.
\<close>

theorem isSimpleFlagEnabled_hash:
  "private_isSimpleFlagEnabled key distinctId rolloutPercentage
     = (if truthy rolloutPercentage
        then js_le (js_div (parseInt16 (take 15 (sha1_hex (key @ ''.'' @ distinctId)))) LONG_SCALE)
                   (js_div (ToNumber rolloutPercentage) 100)
        else True)
   \<and> LONG_SCALE = nearest_double 0xfffffffffffffff
   \<and> LONG_SCALE = 2 ^ 60
   \<and> sha1_hex (''a'' @ ''.'' @ ''b'') = ''69f6642c9d71b463485b4faf4e989dc3fe77a8c6''
   \<and> js_div (parseInt16 (take 15 (sha1_hex (''a'' @ ''.'' @ ''b'')))) LONG_SCALE
       = Fin (7456445665074285 / 18014398509481984)
   \<and> \<bar>7456445665074285 / 18014398509481984 - 4139158829615955 / 10 ^ 16\<bar> < (5 / 10 ^ 17 :: rat)
   \<and> private_isSimpleFlagEnabled ''a'' ''b'' (Number (Fin 42))
   \<and> \<not> private_isSimpleFlagEnabled ''a'' ''b'' (Number (Fin 40))"
proof -
  have "js_div (parseInt16 (take 15 (sha1_hex (''a'' @ ''.'' @ ''b'')))) LONG_SCALE
       = Fin (7456445665074285 / 18014398509481984)"
    using hash_quotient_a_b by (simp add: hash_quotient_def)
  moreover have "sha1_hex (''a'' @ ''.'' @ ''b'') = ''69f6642c9d71b463485b4faf4e989dc3fe77a8c6''"
    by (simp add: sha1_hex_a_b)
  moreover have "private_isSimpleFlagEnabled key distinctId rolloutPercentage
     = (if truthy rolloutPercentage
        then js_le (js_div (parseInt16 (take 15 (sha1_hex (key @ ''.'' @ distinctId)))) LONG_SCALE)
                   (js_div (ToNumber rolloutPercentage) 100)
        else True)"
    by (simp add: private_isSimpleFlagEnabled_def hash_quotient_def)
  moreover have "\<bar>7456445665074285 / 18014398509481984 - 4139158829615955 / 10 ^ 16\<bar>
                 < (5 / 10 ^ 17 :: rat)"
    by simp
  ultimately show ?thesis
    using enabled_a_b_42 disabled_a_b_40 long_scale LONG_SCALE_def by blast
qed

text \<open>
  For every key and subject the quotient is a number between 0 and 1, both included, so
  that a \<open>rolloutPercentage\<close> of 100 enables the flag for every subject. A digest that
  began with \<open>fffffffffffffff\<close> would give the quotient 1 exactly; whether some key and
  subject have a digest with one of the 64 prefixes that do is left open.
\<close>

lemma hash_quotient_unit_interval:
  "(\<exists>q. hash_quotient key distinctId = Fin q \<and> 0 \<le> q \<and> q \<le> 1)
   \<and> private_isSimpleFlagEnabled key distinctId (Number (Fin 100))
   \<and> js_div (parseInt16 ''fffffffffffffff'') LONG_SCALE = Fin 1"
proof -
  obtain q where q: "hash_quotient key distinctId = Fin q" "0 \<le> q" "q \<le> 1"
    using hash_quotient_range by blast
  have "private_isSimpleFlagEnabled key distinctId (Number (Fin 100))"
    unfolding private_isSimpleFlagEnabled_def percent_100 q(1) using q(3) by simp
  then show ?thesis
    using q top_quotient by blast
qed

text \<open>
  C7, as stated, fails at a first percentage of zero: zero is falsy, so the flag is
  enabled at 0, and for key \<open>a\<close> and subject \<open>b\<close> it is not enabled at 40.
\<close>

theorem isSimpleFlagEnabled_monotone_counterexample:
  "js_lt (Fin 0) (Fin 40)
   \<and> private_isSimpleFlagEnabled ''a'' ''b'' (Number (Fin 0))
   \<and> \<not> private_isSimpleFlagEnabled ''a'' ''b'' (Number (Fin 40))"
  using disabled_a_b_40 by (simp add: private_isSimpleFlagEnabled_def)

text \<open>
  C7, amended. For a fixed key and subject the decision is a function of the percentage
  alone (equal inputs give equal results), and it is monotone in the percentage from any
  first percentage other than zero: for numbers \<open>p1 < p2\<close> with \<open>p1\<close> not zero, enabled
  at \<open>p1\<close> implies enabled at \<open>p2\<close>.
\<close>

theorem isSimpleFlagEnabled_monotone:
  assumes "js_lt p1 p2" and "p1 \<noteq> Fin 0"
    and "private_isSimpleFlagEnabled key distinctId (Number p1)"
  shows "private_isSimpleFlagEnabled key distinctId (Number p2)
       \<and> (\<forall>key' distinctId' p. key' = key \<and> distinctId' = distinctId \<and> p = p2 \<longrightarrow>
            private_isSimpleFlagEnabled key' distinctId' (Number p)
            = private_isSimpleFlagEnabled key distinctId (Number p2))"
proof -
  have "private_isSimpleFlagEnabled key distinctId (Number p2)"
  proof (cases "truthy (Number p2)")
    case False
    then show ?thesis by (simp add: private_isSimpleFlagEnabled_def)
  next
    case True
    have "truthy (Number p1)"
      using assms(1,2) by (cases p1; cases p2) simp_all
    then have "js_le (hash_quotient key distinctId) (js_div p1 100)"
      using assms(3) by (simp add: private_isSimpleFlagEnabled_def)
    moreover have "js_le (js_div p1 100) (js_div p2 100)"
      using assms(1) by (intro js_div_mono) simp_all
    ultimately have "js_le (hash_quotient key distinctId) (js_div p2 100)"
      by (rule js_le_trans)
    then show ?thesis
      using True by (simp add: private_isSimpleFlagEnabled_def)
  qed
  then show ?thesis by simp
qed

theorem isSimpleFlagEnabled_monotone_witness:
  "js_lt (Fin 42) (Fin 50) \<and> Fin 42 \<noteq> Fin 0
   \<and> private_isSimpleFlagEnabled ''a'' ''b'' (Number (Fin 42))
   \<and> private_isSimpleFlagEnabled ''a'' ''b'' (Number (Fin 50))"
proof -
  have lt: "js_lt (Fin 42) (Fin 50)" and nz: "Fin 42 \<noteq> Fin 0" by simp_all
  show ?thesis
    using isSimpleFlagEnabled_monotone [OF lt nz enabled_a_b_42] lt enabled_a_b_42 by simp
qed

section \<open>fetchRetry.js: Retry-After and the end of the retries\<close>


lemma message_count_absent:
  "\<forall>e \<in> set errs. message e \<noteq> m \<Longrightarrow> message_count m errs = 0"
  by (simp add: message_count_def)





lemma attempt_no_Fetch: "attempts_made (fst (attempt m outcome)) = 0"
  by (simp add: attempt_def attempts_made_def Let_def split: sum.splits)

lemma run_attempt_eq:
  "run_attempt m fetch num = (Fetch num # fst (attempt m (fetch num)), snd (attempt m (fetch num)))"
  by (simp add: run_attempt_def case_prod_beta)

lemma attempts_made_run_attempt: "attempts_made (fst (run_attempt m fetch num)) = 1"
  using attempt_no_Fetch [of m "fetch num"] by (simp add: run_attempt_eq attempts_made_def)

lemma retry_Returns:
  "fn num = (evs, Returns res) \<Longrightarrow> retry fn timeouts num errors = (evs, Inr res)"
  by (cases timeouts) simp_all

lemma retry_Bails:
  "fn num = (evs, Bails err) \<Longrightarrow> retry fn timeouts num errors = (evs, Inl (Some err))"
  by (cases timeouts) simp_all

lemma retry_Throws_Cons:
  "fn num = (evs, Throws err) \<Longrightarrow>
   retry fn (timeout # timeouts) num errors
   = (evs @ [Sleep (setTimeout_wait timeout)] @ fst (retry fn timeouts (num + 1) (errors @ [err])),
      snd (retry fn timeouts (num + 1) (errors @ [err])))"
  by (simp add: case_prod_beta)

lemma retry_Throws_Nil:
  "fn num = (evs, Throws err) \<Longrightarrow>
   retry fn [] num errors = (evs, Inl (mainError (errors @ [err])))"
  by simp





lemma fetchRetry_retry:
  "fetchRetry m timeouts fetch
   = (fst (retry (run_attempt m fetch) timeouts 1 []),
      catch_response (snd (retry (run_attempt m fetch) timeouts 1 [])))"
  by (simp add: fetchRetry_def case_prod_beta)







lemma round_double_zero: "round_double 0 = Fin 0"
  using round_double_of_int [of 0] by simp

lemma round_double_one: "round_double 1 = Fin 1"
  using round_double_of_int [of 1] by simp

lemma setTimeout_wait_seconds:
  assumes "1 \<le> k" and "k \<le> 2147483"
  shows "setTimeout_wait (js_mul (Fin (of_int k)) 1000) = k * 1000"
proof -
  define n where "n = k * 1000"
  have n: "1 \<le> n" "n \<le> 2147483647" using assms by (simp_all add: n_def)
  have "\<bar>n\<bar> < 2 ^ 53" using n by simp
  then have "round_double (of_int n) = Fin (of_int n)"
    by (rule round_double_of_int)
  then have m: "js_mul (Fin (of_int k)) 1000 = Fin (of_int n)"
    by (simp add: js_mul_def n_def)
  have "(of_int 1 :: rat) \<le> of_int n" and "(of_int n :: rat) \<le> of_int 2147483647"
    using n by (simp_all only: of_int_le_iff)
  then have "(1 :: rat) \<le> of_int n \<and> (of_int n :: rat) \<le> 2147483647"
    by simp
  then have "setTimeout_wait (Fin (of_int n)) = n"
    by (simp add: setTimeout_wait_def)
  then show ?thesis
    unfolding m by (simp add: n_def)
qed

lemma setTimeout_wait_out_of_range:
  assumes "k < 0 \<or> 2147483 < k"
  shows "setTimeout_wait (js_mul (Fin (of_int k)) 1000) = 1"
proof -
  have m: "js_mul (Fin (of_int k)) 1000 = round_double (of_int (k * 1000))"
    by (simp add: js_mul_def)
  from assms show ?thesis
  proof
    assume "k < 0"
    then have "(of_int (k * 1000) :: rat) \<le> 0" by simp
    then have "js_le (round_double (of_int (k * 1000))) (round_double 0)"
      by (rule round_double_mono)
    then have "js_le (round_double (of_int (k * 1000))) (Fin 0)"
      by (simp only: round_double_zero)
    then show ?thesis
      unfolding m by (cases "round_double (of_int (k * 1000))") (simp_all add: setTimeout_wait_def)
  next
    assume "2147483 < k"
    then have "(2147484000 :: int) \<le> k * 1000" by simp
    then have "(of_int 2147484000 :: rat) \<le> of_int (k * 1000)"
      by (simp only: of_int_le_iff)
    then have "js_le (round_double (of_int 2147484000)) (round_double (of_int (k * 1000)))"
      by (rule round_double_mono)
    moreover have "round_double (of_int 2147484000) = Fin (of_int 2147484000)"
      by (rule round_double_of_int) simp
    ultimately have "js_le (Fin 2147484000) (round_double (of_int (k * 1000)))"
      by simp
    then show ?thesis
      unfolding m by (cases "round_double (of_int (k * 1000))") (simp_all add: setTimeout_wait_def)
  qed
qed


lemma header_values:
  "header_seconds None = NaN"
  "header_seconds (Some (utf16 ''2'')) = Fin 2"
  "header_seconds (Some (utf16 ''30'')) = Fin 30"
  "header_seconds (Some (utf16 ''-3'')) = Fin (- 3)"
  "header_seconds (Some (0xA0 # utf16 ''2'')) = Fin 2"
  by (simp_all add: header_seconds_def parseInt10_def utf16_def is_space_def is_digit_def
      decimal_def round_double_numeral)

lemmas retry_eval =
  fetchRetry_def run_attempt_def attempt_def retryable_def header_values
  on_attempt_error_def isClientError_def busy_def fine_def MAX_RETRY_AFTER_def
  catch_response_def mainError_def mainError_step_def object_prototype_keys_def
  attempts_made_def setTimeout_wait_def js_mul_def round_double_numeral

text \<open>
  C3, as stated, fails in its second half: a 503 with \<open>retry-after: 2\<close> and one retry
  scheduled after 10 ms. The attempt waits the 2 seconds and then throws, and the retry
  waits its backoff delay as well: the second attempt comes 2010 ms after the first, not
  2000.
\<close>

theorem fetchRetry_retry_after_counterexample:
  "fetchRetry MAX_RETRY_AFTER [Fin 10] wait_then_fine
     = ([Fetch 1, Sleep 2000, Sleep 10, Fetch 2], Inr fine)
   \<and> delay_before 2 (fst (fetchRetry MAX_RETRY_AFTER [Fin 10] wait_then_fine)) = 2010
   \<and> delay_before 2 (fst (fetchRetry MAX_RETRY_AFTER [Fin 10] wait_then_fine)) \<noteq> 2 * 1000"
  by (simp add: retry_eval wait_then_fine_def delay_before_def)

text \<open>
  C3, amended. An attempt, the first or a later one, yields a retryable response (status
  in [500, 600) or 429) whose \<open>retry-after\<close> header parses as a number \<open>seconds\<close> other
  than zero and NaN. If \<open>seconds\<close> exceeds \<open>maxRetryAfter\<close>, the response is returned to
  the caller as it is and no further attempt is made. Otherwise the attempt waits on a
  timer set to \<open>seconds * 1000\<close> milliseconds and then fails, on the last attempt as on
  any other: with no retry left the call is then rejected, and with the client-error
  status text it bails out. When a retry is left (and the status text is not the
  client-error message) the next attempt follows after the computed backoff delay as
  well: the two waits add up, the header's does not replace the backoff. The timer waits
  \<open>seconds\<close> seconds exactly for 1 to 2147483 seconds, and 1 ms for a negative or a
  larger number of seconds, the infinite ones included.
\<close>

theorem fetchRetry_retry_after:
  assumes "retryable res" and "header_seconds (retry_after res) = seconds"
    and "truthy (Number seconds)" and "fetch num = Inr res"
  shows "(js_lt maxRetryAfter seconds \<longrightarrow>
            retry (run_attempt maxRetryAfter fetch) timeouts num errors = ([Fetch num], Inr res)
            \<and> (num = 1 \<longrightarrow> fetchRetry maxRetryAfter timeouts fetch = ([Fetch 1], Inr res)))
       \<and> (\<not> js_lt maxRetryAfter seconds \<longrightarrow>
            run_attempt maxRetryAfter fetch num
            = ([Fetch num, Sleep (setTimeout_wait (js_mul seconds 1000))],
               on_attempt_error (ResponseError res))
            \<and> (isClientError (ResponseError res) \<longrightarrow>
                 retry (run_attempt maxRetryAfter fetch) timeouts num errors
                 = ([Fetch num, Sleep (setTimeout_wait (js_mul seconds 1000))],
                    Inl (Some (ResponseError res))))
            \<and> (\<not> isClientError (ResponseError res) \<longrightarrow>
                 retry (run_attempt maxRetryAfter fetch) [] num errors
                 = ([Fetch num, Sleep (setTimeout_wait (js_mul seconds 1000))],
                    Inl (mainError (errors @ [ResponseError res])))
                 \<and> retry (run_attempt maxRetryAfter fetch) (timeout # timeouts) num errors
                   = ([Fetch num, Sleep (setTimeout_wait (js_mul seconds 1000)),
                       Sleep (setTimeout_wait timeout)]
                        @ fst (retry (run_attempt maxRetryAfter fetch) timeouts (num + 1)
                                 (errors @ [ResponseError res])),
                      snd (retry (run_attempt maxRetryAfter fetch) timeouts (num + 1)
                             (errors @ [ResponseError res])))
                 \<and> (num = 1 \<longrightarrow>
                      fst (fetchRetry maxRetryAfter (timeout # timeouts) fetch)
                      = [Fetch 1, Sleep (setTimeout_wait (js_mul seconds 1000)),
                         Sleep (setTimeout_wait timeout)]
                          @ fst (retry (run_attempt maxRetryAfter fetch) timeouts 2
                                   [ResponseError res]))))
       \<and> (\<forall>k. seconds = Fin (of_int k) \<and> 1 \<le> k \<and> k \<le> 2147483
              \<longrightarrow> setTimeout_wait (js_mul seconds 1000) = k * 1000)
       \<and> (\<forall>k. seconds = Fin (of_int k) \<and> (k < 0 \<or> 2147483 < k)
              \<longrightarrow> setTimeout_wait (js_mul seconds 1000) = 1)
       \<and> (seconds = NInf \<or> seconds = PInf \<longrightarrow> setTimeout_wait (js_mul seconds 1000) = 1)"
proof (intro conjI impI allI)
  assume over: "js_lt maxRetryAfter seconds"
  have ra: "run_attempt maxRetryAfter fetch num = ([Fetch num], Returns res)"
    using assms over by (simp add: run_attempt_def attempt_def)
  then show "retry (run_attempt maxRetryAfter fetch) timeouts num errors
             = ([Fetch num], Inr res)"
    by (rule retry_Returns)
  assume "num = 1"
  then have "retry (run_attempt maxRetryAfter fetch) timeouts 1 [] = ([Fetch 1], Inr res)"
    using ra by (intro retry_Returns) simp
  then show "fetchRetry maxRetryAfter timeouts fetch = ([Fetch 1], Inr res)"
    by (simp add: fetchRetry_retry catch_response_def del: retry.simps)
next
  assume within: "\<not> js_lt maxRetryAfter seconds"
  show ra: "run_attempt maxRetryAfter fetch num
        = ([Fetch num, Sleep (setTimeout_wait (js_mul seconds 1000))],
           on_attempt_error (ResponseError res))"
    using assms within by (simp add: run_attempt_def attempt_def)
  {
    assume "isClientError (ResponseError res)"
    then have "run_attempt maxRetryAfter fetch num
        = ([Fetch num, Sleep (setTimeout_wait (js_mul seconds 1000))],
           Bails (ResponseError res))"
      using ra by (simp add: on_attempt_error_def)
    then show "retry (run_attempt maxRetryAfter fetch) timeouts num errors
                 = ([Fetch num, Sleep (setTimeout_wait (js_mul seconds 1000))],
                    Inl (Some (ResponseError res)))"
      by (rule retry_Bails)
  }
  assume "\<not> isClientError (ResponseError res)"
  then have th: "run_attempt maxRetryAfter fetch num
        = ([Fetch num, Sleep (setTimeout_wait (js_mul seconds 1000))],
           Throws (ResponseError res))"
    using ra by (simp add: on_attempt_error_def)
  then show "retry (run_attempt maxRetryAfter fetch) [] num errors
                 = ([Fetch num, Sleep (setTimeout_wait (js_mul seconds 1000))],
                    Inl (mainError (errors @ [ResponseError res])))"
    by (rule retry_Throws_Nil)
  show "retry (run_attempt maxRetryAfter fetch) (timeout # timeouts) num errors
                   = ([Fetch num, Sleep (setTimeout_wait (js_mul seconds 1000)),
                       Sleep (setTimeout_wait timeout)]
                        @ fst (retry (run_attempt maxRetryAfter fetch) timeouts (num + 1)
                                 (errors @ [ResponseError res])),
                      snd (retry (run_attempt maxRetryAfter fetch) timeouts (num + 1)
                             (errors @ [ResponseError res])))"
    using th by (simp add: retry_Throws_Cons del: retry.simps)
  assume "num = 1"
  then have "run_attempt maxRetryAfter fetch 1
             = ([Fetch 1, Sleep (setTimeout_wait (js_mul seconds 1000))],
                Throws (ResponseError res))"
    using th by simp
  then have "retry (run_attempt maxRetryAfter fetch) (timeout # timeouts) 1 []
             = ([Fetch 1, Sleep (setTimeout_wait (js_mul seconds 1000))]
                  @ [Sleep (setTimeout_wait timeout)]
                  @ fst (retry (run_attempt maxRetryAfter fetch) timeouts (1 + 1)
                           ([] @ [ResponseError res])),
                snd (retry (run_attempt maxRetryAfter fetch) timeouts (1 + 1)
                       ([] @ [ResponseError res])))"
    by (rule retry_Throws_Cons)
  then show "fst (fetchRetry maxRetryAfter (timeout # timeouts) fetch)
             = [Fetch 1, Sleep (setTimeout_wait (js_mul seconds 1000)),
                Sleep (setTimeout_wait timeout)]
                 @ fst (retry (run_attempt maxRetryAfter fetch) timeouts 2
                          [ResponseError res])"
    unfolding fetchRetry_retry by (simp add: numeral_2_eq_2 del: retry.simps)
next
  fix k
  assume "seconds = Fin (of_int k) \<and> 1 \<le> k \<and> k \<le> 2147483"
  then show "setTimeout_wait (js_mul seconds 1000) = k * 1000"
    using setTimeout_wait_seconds [of k] by simp
next
  fix k
  assume "seconds = Fin (of_int k) \<and> (k < 0 \<or> 2147483 < k)"
  then show "setTimeout_wait (js_mul seconds 1000) = 1"
    using setTimeout_wait_out_of_range [of k] by blast
next
  assume "seconds = NInf \<or> seconds = PInf"
  then show "setTimeout_wait (js_mul seconds 1000) = 1"
    by (auto simp: js_mul_def setTimeout_wait_def)
qed

text \<open>
  A header of 30 seconds ends the retries at the default \<open>maxRetryAfter\<close>; one of 2
  seconds is waited for, before the backoff when a retry is left and on the last attempt
  too; one of -3 seconds is waited for 1 ms.
\<close>

theorem fetchRetry_retry_after_witness:
  "retryable (busy 503 ''Service Unavailable'' (Some (utf16 ''30'')))
   \<and> header_seconds (retry_after (busy 503 ''Service Unavailable'' (Some (utf16 ''30''))))
       = Fin 30
   \<and> js_lt MAX_RETRY_AFTER (Fin 30)
   \<and> fetchRetry MAX_RETRY_AFTER [Fin 10, Fin 60] wait_long
       = ([Fetch 1], Inr (busy 503 ''Service Unavailable'' (Some (utf16 ''30''))))
   \<and> header_seconds (retry_after (busy 503 ''Service Unavailable'' (Some (utf16 ''2''))))
       = Fin 2
   \<and> \<not> js_lt MAX_RETRY_AFTER (Fin 2)
   \<and> \<not> isClientError (ResponseError (busy 503 ''Service Unavailable'' (Some (utf16 ''2''))))
   \<and> setTimeout_wait (js_mul (Fin 2) 1000) = 2000
   \<and> fst (fetchRetry MAX_RETRY_AFTER [Fin 10] wait_then_fine)
       = [Fetch 1, Sleep 2000, Sleep 10]
           @ fst (retry (run_attempt MAX_RETRY_AFTER wait_then_fine) [] 2
                    [ResponseError (busy 503 ''Service Unavailable'' (Some (utf16 ''2'')))])
   \<and> retry (run_attempt MAX_RETRY_AFTER wait_then_fine) [] 1 []
       = ([Fetch 1, Sleep 2000],
          Inl (Some (ResponseError (busy 503 ''Service Unavailable'' (Some (utf16 ''2''))))))
   \<and> header_seconds (retry_after (busy 503 ''Service Unavailable'' (Some (utf16 ''-3''))))
       = Fin (- 3)
   \<and> \<not> js_lt MAX_RETRY_AFTER (Fin (- 3))
   \<and> retry (run_attempt MAX_RETRY_AFTER wait_negative) [] 1 []
       = ([Fetch 1, Sleep 1],
          Inl (Some (ResponseError (busy 503 ''Service Unavailable'' (Some (utf16 ''-3''))))))"
proof -
  let ?b30 = "busy 503 ''Service Unavailable'' (Some (utf16 ''30''))"
  let ?b2 = "busy 503 ''Service Unavailable'' (Some (utf16 ''2''))"
  let ?bn = "busy 503 ''Service Unavailable'' (Some (utf16 ''-3''))"
  have r: "retryable ?b30" "retryable ?b2" "retryable ?bn"
    by (simp_all add: retryable_def busy_def)
  have h30: "header_seconds (retry_after ?b30) = Fin 30"
    and h2: "header_seconds (retry_after ?b2) = Fin 2"
    and hn: "header_seconds (retry_after ?bn) = Fin (of_int (- 3))"
    by (simp_all add: busy_def header_values)
  have t: "truthy (Number (Fin 30))" "truthy (Number (Fin 2))"
    "truthy (Number (Fin (of_int (- 3))))"
    by simp_all
  have f30: "wait_long 1 = Inr ?b30"
    and f2: "wait_then_fine 1 = Inr ?b2"
    and fn: "wait_negative 1 = Inr ?bn"
    by (simp_all add: wait_long_def wait_then_fine_def wait_negative_def)
  have nc: "\<not> isClientError (ResponseError ?b2)" "\<not> isClientError (ResponseError ?bn)"
    by (simp_all add: isClientError_def busy_def)
  have m: "mainError [ResponseError ?b2] = Some (ResponseError ?b2)"
    "mainError [ResponseError ?bn] = Some (ResponseError ?bn)"
    by (simp_all add: mainError_def mainError_step_def object_prototype_keys_def busy_def)
  note a = fetchRetry_retry_after
        [where res = ?b30 and seconds = "Fin 30" and fetch = wait_long and num = 1
           and maxRetryAfter = MAX_RETRY_AFTER and timeouts = "[Fin 10, Fin 60]"
           and errors = "[]" and timeout = "Fin 0", OF r(1) h30 t(1) f30]
  note b = fetchRetry_retry_after
        [where res = ?b2 and seconds = "Fin 2" and fetch = wait_then_fine and num = 1
           and maxRetryAfter = MAX_RETRY_AFTER and timeouts = "[]"
           and errors = "[]" and timeout = "Fin 10", OF r(2) h2 t(2) f2]
  note c = fetchRetry_retry_after
        [where res = ?bn and seconds = "Fin (of_int (- 3))" and fetch = wait_negative and num = 1
           and maxRetryAfter = MAX_RETRY_AFTER and timeouts = "[]"
           and errors = "[]" and timeout = "Fin 10", OF r(3) hn t(3) fn]
  have over: "js_lt MAX_RETRY_AFTER (Fin 30)"
    and within: "\<not> js_lt MAX_RETRY_AFTER (Fin 2)" "\<not> js_lt MAX_RETRY_AFTER (Fin (of_int (- 3)))"
    by (simp_all add: MAX_RETRY_AFTER_def)
  note a1 = a [THEN conjunct1, rule_format, OF over]
  note A = a1 [THEN conjunct2, rule_format, OF refl]
  note b1 = b [THEN conjunct2, THEN conjunct1, rule_format, OF within(1)]
  note b2 = b1 [THEN conjunct2, THEN conjunct2, rule_format, OF nc(1)]
  note B1 = b2 [THEN conjunct1]
  note B2 = b2 [THEN conjunct2, THEN conjunct2, rule_format, OF refl]
  note bw = b [THEN conjunct2, THEN conjunct2, THEN conjunct1, rule_format, of 2]
  have w2: "setTimeout_wait (js_mul (Fin 2) 1000) = 2000"
    using bw by simp
  note c1 = c [THEN conjunct2, THEN conjunct1, rule_format, OF within(2)]
  note c2 = c1 [THEN conjunct2, THEN conjunct2, rule_format, OF nc(2)]
  note C1 = c2 [THEN conjunct1]
  note cw = c [THEN conjunct2, THEN conjunct2, THEN conjunct2, THEN conjunct1, rule_format,
               of "- 3"]
  have wn: "setTimeout_wait (js_mul (Fin (of_int (- 3))) 1000) = 1"
    using cw by simp
  have w10: "setTimeout_wait (Fin 10) = 10"
    by (simp add: setTimeout_wait_def)
  show ?thesis
    using r(1) h30 over A h2 within(1) nc(1) w2 B2 B1 hn within(2) C1 wn w10 m
    by (simp del: retry.simps)
qed




end
